theory Spec2Isabelle
  imports Complex_Main
begin

section \<open>JavaScript numbers\<close>

text \<open>
  The simulation computes with JavaScript numbers. A number is modelled as an exact real
  or \<open>NaN\<close>: arithmetic on \<open>NaN\<close> gives \<open>NaN\<close>, every comparison with \<open>NaN\<close> is false,
  and \<open>Math.min\<close>/\<open>Math.max\<close> return \<open>NaN\<close> as soon as one argument is \<open>NaN\<close>.
  Rounding and the two infinities are outside the model (finite arithmetic is exact, as the
  phrase "within floating-point tolerance" of the specification allows); a division by
  zero, which the engine never performs, is mapped to \<open>NaN\<close>.
\<close>

datatype jsnum = Num real | NaN

instantiation jsnum :: "{plus, minus, times, inverse, ord}"
begin

fun plus_jsnum :: "jsnum \<Rightarrow> jsnum \<Rightarrow> jsnum" where
  "plus_jsnum (Num a) (Num b) = Num (a + b)"
| "plus_jsnum _ _ = NaN"

fun minus_jsnum :: "jsnum \<Rightarrow> jsnum \<Rightarrow> jsnum" where
  "minus_jsnum (Num a) (Num b) = Num (a - b)"
| "minus_jsnum _ _ = NaN"

fun times_jsnum :: "jsnum \<Rightarrow> jsnum \<Rightarrow> jsnum" where
  "times_jsnum (Num a) (Num b) = Num (a * b)"
| "times_jsnum _ _ = NaN"

fun inverse_jsnum :: "jsnum \<Rightarrow> jsnum" where
  "inverse_jsnum (Num a) = (if a = 0 then NaN else Num (inverse a))"
| "inverse_jsnum NaN = NaN"

fun divide_jsnum :: "jsnum \<Rightarrow> jsnum \<Rightarrow> jsnum" where
  "divide_jsnum (Num a) (Num b) = (if b = 0 then NaN else Num (a / b))"
| "divide_jsnum _ _ = NaN"

fun less_eq_jsnum :: "jsnum \<Rightarrow> jsnum \<Rightarrow> bool" where
  "less_eq_jsnum (Num a) (Num b) = (a \<le> b)"
| "less_eq_jsnum _ _ = False"

fun less_jsnum :: "jsnum \<Rightarrow> jsnum \<Rightarrow> bool" where
  "less_jsnum (Num a) (Num b) = (a < b)"
| "less_jsnum _ _ = False"

instance ..

end

fun Math_max :: "jsnum \<Rightarrow> jsnum \<Rightarrow> jsnum" where
  "Math_max (Num a) (Num b) = Num (max a b)"
| "Math_max _ _ = NaN"

fun Math_min :: "jsnum \<Rightarrow> jsnum \<Rightarrow> jsnum" where
  "Math_min (Num a) (Num b) = Num (min a b)"
| "Math_min _ _ = NaN"

definition Math_min3 :: "jsnum \<Rightarrow> jsnum \<Rightarrow> jsnum \<Rightarrow> jsnum" where
  "Math_min3 a b c = Math_min (Math_min a b) c"

fun Math_floor :: "jsnum \<Rightarrow> jsnum" where
  "Math_floor (Num a) = Num (of_int \<lfloor>a\<rfloor>)"
| "Math_floor NaN = NaN"

fun Math_round :: "jsnum \<Rightarrow> jsnum" where
  "Math_round (Num a) = Num (of_int \<lfloor>a + 1 / 2\<rfloor>)"
| "Math_round NaN = NaN"

fun Math_cos :: "jsnum \<Rightarrow> jsnum" where
  "Math_cos (Num a) = Num (cos a)"
| "Math_cos NaN = NaN"

fun Math_sin :: "jsnum \<Rightarrow> jsnum" where
  "Math_sin (Num a) = Num (sin a)"
| "Math_sin NaN = NaN"

definition Math_PI :: jsnum where
  "Math_PI = Num pi"

text \<open>\<open>THREE.MathUtils.clamp(value, min, max)\<close> is \<open>Math.max(min, Math.min(max, value))\<close>.\<close>

definition MathUtils_clamp :: "jsnum \<Rightarrow> jsnum \<Rightarrow> jsnum \<Rightarrow> jsnum" where
  "MathUtils_clamp v lo hi = Math_max lo (Math_min hi v)"

text \<open>
  The number of times the body of \<open>for (let i = 0; i < n; i++)\<close> runs: the naturals below
  \<open>n\<close>, none when \<open>n\<close> is \<open>NaN\<close>.
\<close>

fun loop_iterations :: "jsnum \<Rightarrow> nat" where
  "loop_iterations (Num n) = nat \<lceil>n\<rceil>"
| "loop_iterations NaN = 0"

fun is_finite :: "jsnum \<Rightarrow> bool" where
  "is_finite (Num a) = True"
| "is_finite NaN = False"

fun in_unit :: "jsnum \<Rightarrow> bool" where
  "in_unit (Num a) = (0 \<le> a \<and> a \<le> 1)"
| "in_unit NaN = False"

section \<open>Data model\<close>

text \<open>
  The three containers are addressed by the keys \<open>'A'\<close> (the bowl), \<open>'B'\<close> (the upper side
  tank) and \<open>'C'\<close> (the lower side tank, the air chamber). The specification calls them
  Top, Basin and Reservoir in this order.
\<close>

datatype key = A | B | C

text \<open>The attachment points \<open>this.ports.<key>.<name>\<close>; hoses compare them by identity.\<close>

datatype port =
    A_right | A_left | A_nozzle | A_drain
  | B_left | B_right | B_top | B_bottom
  | C_left | C_right | C_top | C_bottom

text \<open>
  A hose record. \<open>addHose\<close> and \<open>addHoseCurved\<close> store no \<open>startObj\<close>, \<open>midObj\<close> or
  \<open>endObj\<close>: the fields are then \<open>undefined\<close> (\<open>None\<close>, \<open>False\<close>). Meshes and curves are
  rendering data and are left out.
\<close>

record hose =
  hose_from :: key
  hose_to :: key
  startObj :: "port option"
  midObj :: bool
  endObj :: "port option"

datatype vec3 = Vector3 (vec_x: jsnum) (vec_y: jsnum) (vec_z: jsnum)

fun vec_add :: "vec3 \<Rightarrow> vec3 \<Rightarrow> vec3" where
  "vec_add (Vector3 a b c) (Vector3 d e f) = Vector3 (a + d) (b + e) (c + f)"

fun vec_multiplyScalar :: "vec3 \<Rightarrow> jsnum \<Rightarrow> vec3" where
  "vec_multiplyScalar (Vector3 a b c) k = Vector3 (a * k) (b * k) (c * k)"

fun vec_lerp :: "vec3 \<Rightarrow> vec3 \<Rightarrow> jsnum \<Rightarrow> vec3" where
  "vec_lerp (Vector3 a b c) (Vector3 d e f) alpha =
     Vector3 (a + (d - a) * alpha) (b + (e - b) * alpha) (c + (f - c) * alpha)"

text \<open>A pooled particle: \<open>visible\<close> is \<open>mesh.visible\<close>, \<open>position\<close> is \<open>mesh.position\<close>.\<close>

record particle =
  visible :: bool
  position :: vec3
  velocity :: vec3
  life :: jsnum
  maxLife :: jsnum

record ripple =
  center :: "jsnum \<times> jsnum"
  startTime :: jsnum
  strength :: jsnum

text \<open>
  The state of a \<open>Fountain\<close> object. \<open>waterLevels\<close> is the object \<open>{A, B, C}\<close>, read and
  written by key. \<open>absorbY\<close> is \<open>bowlParams.absorbY\<close>, the only bowl parameter that changes.
  \<open>spoutTip\<close>, \<open>sideGroup\<close>, \<open>sidePivot\<close>, \<open>streamMaterial\<close> and
  \<open>basinSurfaceMaterial\<close> record whether the scene object of that name exists.
  \<open>airLineConnected\<close> is \<open>undefined\<close> until the first tick; only its truthiness is read,
  so \<open>undefined\<close> is \<open>False\<close>. \<open>flipCallbacks\<close> holds the start time (ms) of every flip
  animation whose \<open>step\<close> callback is still scheduled with \<open>requestAnimationFrame\<close>.
  \<open>Math.random()\<close> reads \<open>random_src\<close> at \<open>random_count\<close>, the number of draws so far.
\<close>

record fountain =
  hoses :: "hose list"
  pendingHoseStart :: "key option"
  particles :: "particle list"
  waterLevels :: "key \<Rightarrow> jsnum"
  airPressure :: jsnum
  flowIntensity :: jsnum
  isActive :: bool
  time :: jsnum
  activeRipples :: "ripple list"
  isFlipping :: bool
  absorbY :: jsnum
  airLineConnected :: bool
  spoutTip :: bool
  sideGroup :: bool
  sidePivot :: bool
  streamMaterial :: bool
  basinSurfaceMaterial :: bool
  flipCallbacks :: "real list"
  random_src :: "nat \<Rightarrow> real"
  random_count :: nat

definition flowRate :: jsnum where
  "flowRate = Num 0.05"

definition maxParticles :: nat where
  "maxParticles = 400"

definition maxRipples :: nat where
  "maxRipples = 6"

text \<open>\<open>bowlParams\<close>: \<open>bottomY\<close>, \<open>height\<close> and \<open>innerTopR\<close> never change.\<close>

definition bowl_bottomY :: jsnum where
  "bowl_bottomY = Num 3.35"

definition bowl_height :: jsnum where
  "bowl_height = Num 1.4"

definition bowl_innerTopR :: jsnum where
  "bowl_innerTopR = Num 1.5"

definition Math_random :: "fountain \<Rightarrow> jsnum \<times> fountain" where
  "Math_random s = (Num (random_src s (random_count s)), s\<lparr>random_count := Suc (random_count s)\<rparr>)"

section \<open>Particles\<close>

text \<open>\<open>this.particles.find(p => !p.mesh.visible)\<close>, as the index of the particle found.\<close>

primrec findIndex :: "('a \<Rightarrow> bool) \<Rightarrow> 'a list \<Rightarrow> nat option" where
  "findIndex P [] = None"
| "findIndex P (x # xs) = (if P x then Some 0 else map_option Suc (findIndex P xs))"

text \<open>
  The world position of the spout tip: the tip sits at \<open>(0.05, 5.25, 0)\<close> in the bowl
  group, which is never moved or rotated.
\<close>

definition spoutTip_worldPosition :: vec3 where
  "spoutTip_worldPosition = Vector3 (Num 0.05) (Num 5.25) (Num 0)"

text \<open>One pass of the loop body of \<open>createFountainParticles\<close>.\<close>

definition emitParticle :: "jsnum \<Rightarrow> fountain \<Rightarrow> fountain" where
  "emitParticle fountainHeight s =
     (case findIndex (\<lambda>p. \<not> visible p) (particles s) of
        None \<Rightarrow> s
      | Some i \<Rightarrow>
          let tip = spoutTip_worldPosition;
              dir = Vector3 (Num 0) (Num (- 1)) (Num 0);
              bowlCenter = Vector3 (Num 0) (absorbY s) (Num 0);
              spawn = vec_lerp tip bowlCenter (Num 0.22);
              (r1, s1) = Math_random s;
              (r2, s2) = Math_random s1;
              pos = vec_add spawn
                      (Vector3 ((r1 - Num 0.5) * Num 0.01) (Num 0) ((r2 - Num 0.5) * Num 0.01));
              (r3, s3) = Math_random s2;
              (r4, s4) = Math_random s3;
              (r5, s5) = Math_random s4;
              tangentJitter = Vector3 ((r3 - Num 0.5) * Num 0.02) ((r4 - Num 0.5) * Num 0.04)
                                ((r5 - Num 0.5) * Num 0.02);
              (r6, s6) = Math_random s5;
              initialVel = vec_add
                 (vec_multiplyScalar dir (fountainHeight * (Num 1.0 + r6 * Num 0.3)))
                 tangentJitter;
              (r7, s7) = Math_random s6
          in s7\<lparr>particles := (particles s7)
                  [i := \<lparr>visible = True, position = pos, velocity = initialVel,
                         life = Num 0, maxLife = Num 0.9 + r7 * Num 0.8\<rparr>]\<rparr>)"

definition createFountainParticles :: "fountain \<Rightarrow> fountain" where
  "createFountainParticles s =
     (if \<not> spoutTip s then s
      else if \<not> airLineConnected s then s
      else if airPressure s \<le> Num 0.05 then s
      else
        let fountainHeight = Num 1.6 + airPressure s * Num 4.2;
            particleCount =
              Math_max (Num 25)
                (Math_floor ((Num 0.5 + flowIntensity s) * airPressure s * Num 120))
        in (emitParticle fountainHeight ^^ loop_iterations particleCount) s)"

text \<open>
  One pass of the loop body of \<open>spawnSplash\<close>. When no slot is free the source returns
  from the function; the remaining passes would find no slot either, so they change
  nothing.
\<close>

definition splashParticle :: "vec3 \<Rightarrow> fountain \<Rightarrow> fountain" where
  "splashParticle pos0 s =
     (case findIndex (\<lambda>pp. \<not> visible pp) (particles s) of
        None \<Rightarrow> s
      | Some i \<Rightarrow>
          let (r1, s1) = Math_random s;
              (r2, s2) = Math_random s1;
              pos = vec_add pos0
                      (Vector3 ((r1 - Num 0.5) * Num 0.2) (Num 0.02) ((r2 - Num 0.5) * Num 0.2));
              (r3, s3) = Math_random s2;
              angle = r3 * Math_PI * Num 2;
              (r4, s4) = Math_random s3;
              speed = Num 0.8 + r4 * Num 0.6;
              vel = Vector3 (Math_cos angle * Num 0.3) speed (Math_sin angle * Num 0.3);
              (r5, s5) = Math_random s4
          in s5\<lparr>particles := (particles s5)
                  [i := \<lparr>visible = True, position = pos, velocity = vel,
                         life = Num 0, maxLife = Num 0.3 + r5 * Num 0.4\<rparr>]\<rparr>)"

definition spawnSplash :: "vec3 \<Rightarrow> fountain \<Rightarrow> fountain" where
  "spawnSplash pos0 s =
     (let (r, s1) = Math_random s;
          count = Num 6 + Math_floor (r * Num 6)
      in (splashParticle pos0 ^^ loop_iterations count) s1)"

definition setVisible :: "nat \<Rightarrow> bool \<Rightarrow> fountain \<Rightarrow> fountain" where
  "setVisible i v s = s\<lparr>particles := (particles s)[i := (particles s ! i)\<lparr>visible := v\<rparr>]\<rparr>"

definition pushRipple :: "vec3 \<Rightarrow> fountain \<Rightarrow> fountain" where
  "pushRipple p s =
     (if basinSurfaceMaterial s then
        let uvx = MathUtils_clamp (vec_x p / bowl_innerTopR) (Num (- 1)) (Num 1);
            uvy = MathUtils_clamp (vec_z p / bowl_innerTopR) (Num (- 1)) (Num 1);
            rs = \<lparr>center = (uvx, uvy), startTime = time s, strength = Num 1\<rparr> # activeRipples s
        in s\<lparr>activeRipples := (if length rs > maxRipples then butlast rs else rs)\<rparr>
      else s)"

text \<open>
  The callback of \<open>updateParticles\<close> on the particle at index \<open>i\<close>. The opacity of the
  shared material is rendering data and is left out.
\<close>

definition updateParticle :: "jsnum \<Rightarrow> nat \<Rightarrow> fountain \<Rightarrow> fountain" where
  "updateParticle deltaTime i s =
     (let particle = particles s ! i in
      if \<not> visible particle then s
      else
        let p = vec_add (position particle) (vec_multiplyScalar (velocity particle) deltaTime);
            v = velocity particle;
            vel = Vector3 (vec_x v) (vec_y v - Num 9.8 * deltaTime) (vec_z v);
            life1 = life particle + deltaTime;
            s1 = s\<lparr>particles := (particles s)
                    [i := particle\<lparr>position := p, velocity := vel, life := life1\<rparr>]\<rparr>;
            r2 = vec_x p * vec_x p + vec_z p * vec_z p;
            withinRadius = (r2 \<le> bowl_innerTopR * bowl_innerTopR);
            bottomCollisionY = bowl_bottomY - Num 0.2;
            outsideCullRadius = (bowl_innerTopR + Num 0.15) * (bowl_innerTopR + Num 0.15)
        in
          if vec_y p \<le> bottomCollisionY \<and> withinRadius then
            s1\<lparr>particles := (particles s1)
                 [i := (particles s1 ! i)\<lparr>visible := False,
                                          velocity := Vector3 (Num 0) (Num 0) (Num 0)\<rparr>]\<rparr>
          else if outsideCullRadius < r2 \<and> vec_y p \<le> absorbY s1 + Num 0.2 then
            setVisible i False s1
          else
            let s2 = (if vec_y p \<le> absorbY s1 \<and> withinRadius
                      then setVisible i False (pushRipple p (spawnSplash p s1))
                      else s1)
            in if maxLife particle \<le> life1 then setVisible i False s2 else s2)"

definition updateParticles :: "jsnum \<Rightarrow> fountain \<Rightarrow> fountain" where
  "updateParticles deltaTime s = fold (updateParticle deltaTime) [0..<length (particles s)] s"

section \<open>Water transfer and pressure\<close>

definition hasDrain :: "hose list \<Rightarrow> bool" where
  "hasDrain hs =
     list_ex (\<lambda>h. hose_from h = A \<and> startObj h = Some A_drain \<and>
                  hose_to h = C \<and> endObj h = Some C_bottom) hs"

definition hasRiser :: "hose list \<Rightarrow> bool" where
  "hasRiser hs =
     list_ex (\<lambda>h. hose_from h = B \<and> startObj h = Some B_bottom \<and>
                  hose_to h = A \<and> endObj h = Some A_nozzle) hs"

definition hasAirLine :: "hose list \<Rightarrow> bool" where
  "hasAirLine hs =
     list_ex (\<lambda>h. hose_from h = C \<and> startObj h = Some C_top \<and>
                  hose_to h = B \<and> endObj h = Some B_top) hs"

text \<open>Step 1 of \<open>updateWaterFlow\<close>: the drain debits \<open>B\<close> and credits \<open>C\<close>.\<close>

definition drainStep :: "jsnum \<Rightarrow> fountain \<Rightarrow> fountain" where
  "drainStep deltaTime s =
     (if hasDrain (hoses s) then
        let drainAmount = Num 0.6 * flowRate * flowIntensity s * deltaTime;
            actualDrain = Math_min3 drainAmount (waterLevels s B) (Num 1 - waterLevels s C);
            w1 = (waterLevels s)(B := waterLevels s B - actualDrain);
            w2 = w1(C := w1 C + actualDrain)
        in s\<lparr>waterLevels := w2\<rparr>
      else s)"

text \<open>Step 2: the riser debits \<open>B\<close>, credits nothing and spawns the jet.\<close>

definition riserStep :: "jsnum \<Rightarrow> fountain \<Rightarrow> fountain" where
  "riserStep deltaTime s =
     (if hasRiser (hoses s) \<and> Num 0.05 < airPressure s \<and> Num 0 < waterLevels s B then
        let pressureFlow = (flowRate * Num 1.25) * flowIntensity s * airPressure s * deltaTime;
            actualFlow = Math_min pressureFlow (waterLevels s B);
            s1 = s\<lparr>waterLevels := (waterLevels s)(B := waterLevels s B - actualFlow)\<rparr>
        in if Num 0 < actualFlow then createFountainParticles s1 else s1
      else s)"

text \<open>Step 4, the callback of \<open>this.hoses.forEach\<close>: it runs on every hose of the list.\<close>

definition hoseFlow :: "jsnum \<Rightarrow> hose \<Rightarrow> fountain \<Rightarrow> fountain" where
  "hoseFlow baseRate h s =
     (let isBottomPickup = (startObj h = Some B_bottom \<or> startObj h = Some C_bottom);
          hoseRate = (if isBottomPickup then baseRate * Num 1.6 else baseRate);
          from = hose_from h;
          to = hose_to h
      in if startObj h = Some C_top \<and> endObj h = Some B_top then s
         else
           let available = waterLevels s from;
               capacity = Num 1 - waterLevels s to;
               moved = Math_max (Num 0) (Math_min3 hoseRate available capacity)
           in if Num 0 < moved then
                let w1 = (waterLevels s)(from := waterLevels s from - moved);
                    w2 = w1(to := w1 to + moved)
                in s\<lparr>waterLevels := w2\<rparr>
              else s)"

definition updateWaterFlow :: "jsnum \<Rightarrow> fountain \<Rightarrow> fountain" where
  "updateWaterFlow deltaTime s =
     (let s1 = drainStep deltaTime s;
          s2 = riserStep deltaTime s1;
          s3 = s2\<lparr>airLineConnected := hasAirLine (hoses s2)\<rparr>;
          baseRate = Num 0.9 * flowRate * flowIntensity s3 * deltaTime
      in fold (hoseFlow baseRate) (hoses s3) s3)"

definition updateAirPressure :: "fountain \<Rightarrow> fountain" where
  "updateAirPressure s =
     (let sealFactor = (if airLineConnected s then Num 1 else Num 0.2);
          heightHead = Math_max (Num 0) (waterLevels s C - waterLevels s B);
          inflowFactor = Math_min (Num 1) ((Num 1 - waterLevels s A) + waterLevels s C)
      in s\<lparr>airPressure :=
            Math_max (Num 0)
              (Math_min (Num 1) (sealFactor * (heightHead * Num 2.0 + Num 0.5 * inflowFactor)))\<rparr>)"

text \<open>
  \<open>updateWaterLevels\<close> clamps \<open>B\<close> and \<open>C\<close> in place; of \<open>A\<close> it clamps a local copy only,
  from which the absorption height follows. Mesh scales and positions are left out.
\<close>

definition updateWaterLevels :: "fountain \<Rightarrow> fountain" where
  "updateWaterLevels s =
     (let waterLevelA = Math_max (Num 0) (Math_min (Num 1) (waterLevels s A));
          waterSurfaceY = bowl_bottomY + bowl_height * waterLevelA;
          w1 = (waterLevels s)(B := Math_max (Num 0) (Math_min (Num 1) (waterLevels s B)));
          w2 = w1(C := Math_max (Num 0) (Math_min (Num 1) (w1 C)))
      in s\<lparr>absorbY := waterSurfaceY, waterLevels := w2\<rparr>)"

section \<open>Flip and reset\<close>

text \<open>
  \<open>animateFlip\<close> reads \<open>performance.now()\<close> (the argument \<open>now\<close>, in ms) and schedules its
  \<open>step\<close> callback. The rotation of the pivot is rendering data.
\<close>

definition animateFlip :: "real \<Rightarrow> fountain \<Rightarrow> fountain" where
  "animateFlip now s =
     (if \<not> sideGroup s then s
      else s\<lparr>isFlipping := True, sidePivot := True, flipCallbacks := flipCallbacks s @ [now]\<rparr>)"

definition flipSystem :: "real \<Rightarrow> fountain \<Rightarrow> fountain" where
  "flipSystem now s =
     (if isFlipping s then s
      else
        let tempLevel = waterLevels s B;
            w1 = (waterLevels s)(B := waterLevels s C);
            w2 = w1(C := tempLevel)
        in animateFlip now (s\<lparr>waterLevels := w2, airPressure := Num 0, isActive := True\<rparr>))"

definition flip_duration :: real where
  "flip_duration = 1000"

text \<open>
  The callback \<open>step(now)\<close> of the animation started at \<open>start\<close>: it schedules itself
  again while \<open>t < 1\<close> and clears \<open>isFlipping\<close> otherwise.
\<close>

definition flipStep :: "real \<Rightarrow> real \<Rightarrow> fountain \<Rightarrow> fountain" where
  "flipStep now start s =
     (let t = min ((now - start) / flip_duration) 1
      in if t < 1 then s\<lparr>flipCallbacks := flipCallbacks s @ [start]\<rparr>
         else s\<lparr>isFlipping := False\<rparr>)"

text \<open>An animation frame at time \<open>now\<close> runs the scheduled callbacks in order.\<close>

definition animationFrame :: "real \<Rightarrow> fountain \<Rightarrow> fountain" where
  "animationFrame now s = fold (flipStep now) (flipCallbacks s) (s\<lparr>flipCallbacks := []\<rparr>)"

definition checkAutoFlip :: "real \<Rightarrow> fountain \<Rightarrow> fountain" where
  "checkAutoFlip now s =
     (if isFlipping s then s
      else
        let lowerFull = (Num 0.98 \<le> waterLevels s C);
            upperEmpty = (waterLevels s B \<le> Num 0.02)
        in if lowerFull \<or> upperEmpty then flipSystem now s else s)"

definition initialLevels :: "key \<Rightarrow> jsnum" where
  "initialLevels k = (case k of A \<Rightarrow> Num 0.75 | B \<Rightarrow> Num 1.0 | C \<Rightarrow> Num 0.26)"

definition resetSystem :: "fountain \<Rightarrow> fountain" where
  "resetSystem s =
     s\<lparr>waterLevels := initialLevels, airPressure := Num 0, isActive := True,
       isFlipping := False, hoses := []\<rparr>"

record status =
  containerA :: jsnum
  containerB :: jsnum
  containerC :: jsnum
  pressure :: jsnum
  status_isActive :: bool

definition getStatus :: "fountain \<Rightarrow> status" where
  "getStatus s =
     \<lparr>containerA = Math_round (waterLevels s B * Num 100),
      containerB = Math_round (waterLevels s A * Num 100),
      containerC = Math_round (waterLevels s C * Num 100),
      pressure = Math_round (airPressure s * Num 100),
      status_isActive = isActive s\<rparr>"

section \<open>Hoses\<close>

definition setFlowIntensity :: "jsnum \<Rightarrow> fountain \<Rightarrow> fountain" where
  "setFlowIntensity v s = s\<lparr>flowIntensity := Math_max (Num 0) (Math_min (Num 1) v)\<rparr>"

definition removeHosesForContainer :: "key \<Rightarrow> fountain \<Rightarrow> fountain" where
  "removeHosesForContainer containerKey s =
     s\<lparr>hoses := filter (\<lambda>h. \<not> (hose_from h = containerKey \<or> hose_to h = containerKey)) (hoses s)\<rparr>"

definition addHose :: "key \<Rightarrow> key \<Rightarrow> fountain \<Rightarrow> fountain" where
  "addHose fromKey toKey s =
     s\<lparr>hoses := hoses s @
         [\<lparr>hose_from = fromKey, hose_to = toKey, startObj = None, midObj = False, endObj = None\<rparr>]\<rparr>"

definition addHoseCurved :: "key \<Rightarrow> key \<Rightarrow> fountain \<Rightarrow> fountain" where
  "addHoseCurved fromKey toKey s =
     s\<lparr>hoses := hoses s @
         [\<lparr>hose_from = fromKey, hose_to = toKey, startObj = None, midObj = False, endObj = None\<rparr>]\<rparr>"

definition addDiagramHoses :: "fountain \<Rightarrow> fountain" where
  "addDiagramHoses s = addHoseCurved B C (addHoseCurved A C (addHoseCurved A B s))"

text \<open>
  The world \<open>x\<close> of a container: the bowl stands at \<open>0\<close>; the side group stands at
  \<open>3.5\<close>, and at \<open>8.5\<close> once \<open>updateHoses\<close> has re-anchored it under the pivot (the flip
  rotates about the \<open>x\<close> axis). \<open>chooseDefaultPort\<close> only compares the two.
\<close>

definition containerWorldX :: "fountain \<Rightarrow> key \<Rightarrow> real" where
  "containerWorldX s k = (case k of A \<Rightarrow> 0 | _ \<Rightarrow> (if sidePivot s then 8.5 else 3.5))"

definition chooseDefaultPort :: "fountain \<Rightarrow> key \<Rightarrow> key \<Rightarrow> port" where
  "chooseDefaultPort s fromKey toKey =
     (if containerWorldX s toKey \<ge> containerWorldX s fromKey
      then (case fromKey of A \<Rightarrow> A_right | B \<Rightarrow> B_right | C \<Rightarrow> C_right)
      else (case fromKey of A \<Rightarrow> A_left | B \<Rightarrow> B_left | C \<Rightarrow> C_left))"

definition addFreeformHoseWithPoints :: "key \<Rightarrow> key \<Rightarrow> fountain \<Rightarrow> fountain" where
  "addFreeformHoseWithPoints fromKey toKey s =
     s\<lparr>hoses := hoses s @
         [\<lparr>hose_from = fromKey, hose_to = toKey,
           startObj = Some (chooseDefaultPort s fromKey toKey), midObj = True,
           endObj = Some (chooseDefaultPort s toKey fromKey)\<rparr>]\<rparr>"

definition handleContainerClick :: "key \<Rightarrow> fountain \<Rightarrow> fountain" where
  "handleContainerClick containerKey s =
     (case pendingHoseStart s of
        None \<Rightarrow> s\<lparr>pendingHoseStart := Some containerKey\<rparr>
      | Some k \<Rightarrow>
          if k = containerKey then s\<lparr>pendingHoseStart := None\<rparr>
          else (addHose k containerKey s)\<lparr>pendingHoseStart := None\<rparr>)"

text \<open>The three canonical hoses: P1 the drain, P2 the air line, P3 the riser.\<close>

definition drainHose :: hose where
  "drainHose = \<lparr>hose_from = A, hose_to = C, startObj = Some A_drain, midObj = True,
                endObj = Some C_bottom\<rparr>"

definition airLineHose :: hose where
  "airLineHose = \<lparr>hose_from = C, hose_to = B, startObj = Some C_top, midObj = True,
                  endObj = Some B_top\<rparr>"

definition riserHose :: hose where
  "riserHose = \<lparr>hose_from = B, hose_to = A, startObj = Some B_bottom, midObj = True,
                endObj = Some A_nozzle\<rparr>"

definition addDefaultDiagramHoses :: "fountain \<Rightarrow> fountain" where
  "addDefaultDiagramHoses s = s\<lparr>hoses := [drainHose, airLineHose, riserHose], spoutTip := True\<rparr>"

text \<open>
  \<open>rebuildTubeForHose\<close> calls \<open>getWorldPosition\<close> on the three anchors of the hose and
  throws a \<open>TypeError\<close> when one is \<open>undefined\<close>.
\<close>

datatype error = TypeError

datatype completion = Normal | Throw error

definition rebuildTubeForHose_ok :: "hose \<Rightarrow> bool" where
  "rebuildTubeForHose_ok h = (startObj h \<noteq> None \<and> endObj h \<noteq> None \<and> midObj h)"

definition updateHoses_ok :: "fountain \<Rightarrow> bool" where
  "updateHoses_ok s = list_all rebuildTubeForHose_ok (hoses s)"

section \<open>The tick\<close>

text \<open>The part of \<open>update\<close> after \<open>updateHoses\<close>: shader time and the age cut of ripples.\<close>

definition advanceTime :: "jsnum \<Rightarrow> fountain \<Rightarrow> fountain" where
  "advanceTime deltaTime s =
     (let s1 = (if streamMaterial s then s\<lparr>time := time s + deltaTime\<rparr> else s)
      in if basinSurfaceMaterial s1 then
           s1\<lparr>activeRipples := filter (\<lambda>r. time s1 - startTime r < Num 4) (activeRipples s1)\<rparr>
         else s1)"

text \<open>The state when \<open>update\<close> reaches \<open>checkAutoFlip\<close>.\<close>

definition beforeAutoFlip :: "jsnum \<Rightarrow> fountain \<Rightarrow> fountain" where
  "beforeAutoFlip deltaTime s =
     updateWaterLevels (updateParticles deltaTime (updateAirPressure (updateWaterFlow deltaTime s)))"

text \<open>
  \<open>update(deltaTime)\<close>. When \<open>updateHoses\<close> throws, the tick stops there and the state
  keeps what the earlier steps wrote.
\<close>

definition update :: "real \<Rightarrow> jsnum \<Rightarrow> fountain \<Rightarrow> completion \<times> fountain" where
  "update now deltaTime s =
     (if \<not> isActive s then (Normal, s)
      else
        let s1 = checkAutoFlip now (beforeAutoFlip deltaTime s)
        in if \<not> updateHoses_ok s1 then (Throw TypeError, s1)
           else (Normal, advanceTime deltaTime s1))"

section \<open>Construction and runs\<close>

definition newParticle :: "fountain \<Rightarrow> fountain" where
  "newParticle s =
     (let (r, s1) = Math_random s
      in s1\<lparr>particles := particles s1 @
              [\<lparr>visible = False, position = Vector3 (Num 0) (Num 0) (Num 0),
                velocity = Vector3 (Num 0) (Num 0) (Num 0), life = Num 0,
                maxLife = Num 2 + r * Num 2\<rparr>]\<rparr>)"

definition createParticleSystem :: "fountain \<Rightarrow> fountain" where
  "createParticleSystem s = ((newParticle ^^ maxParticles) s)\<lparr>streamMaterial := True\<rparr>"

text \<open>\<open>new Fountain(scene)\<close>, with the stream of values that \<open>Math.random()\<close> will return.\<close>

definition Fountain_fields :: "(nat \<Rightarrow> real) \<Rightarrow> fountain" where
  "Fountain_fields rnd =
     \<lparr>hoses = [], pendingHoseStart = None, particles = [], waterLevels = initialLevels,
      airPressure = Num 0.0, flowIntensity = Num 0.25, isActive = True, time = Num 0,
      activeRipples = [], isFlipping = False, absorbY = Num 3.6, airLineConnected = False,
      spoutTip = False, sideGroup = False, sidePivot = False, streamMaterial = False,
      basinSurfaceMaterial = False, flipCallbacks = [], random_src = rnd, random_count = 0\<rparr>"

definition Fountain_new :: "(nat \<Rightarrow> real) \<Rightarrow> fountain" where
  "Fountain_new rnd =
     addDefaultDiagramHoses
       ((createParticleSystem ((Fountain_fields rnd)\<lparr>sideGroup := True\<rparr>))
          \<lparr>basinSurfaceMaterial := True\<rparr>)"

datatype op =
    Update real jsnum
  | SetFlowIntensity jsnum
  | FlipSystem real
  | ResetSystem
  | AnimationFrame real
  | HandleContainerClick key
  | RemoveHosesForContainer key
  | AddHose key key
  | AddHoseCurved key key
  | AddFreeformHoseWithPoints key key
  | AddDiagramHoses
  | AddDefaultDiagramHoses

fun apply_op :: "op \<Rightarrow> fountain \<Rightarrow> fountain" where
  "apply_op (Update now dt) s = snd (update now dt s)"
| "apply_op (SetFlowIntensity v) s = setFlowIntensity v s"
| "apply_op (FlipSystem now) s = flipSystem now s"
| "apply_op ResetSystem s = resetSystem s"
| "apply_op (AnimationFrame now) s = animationFrame now s"
| "apply_op (HandleContainerClick k) s = handleContainerClick k s"
| "apply_op (RemoveHosesForContainer k) s = removeHosesForContainer k s"
| "apply_op (AddHose f t) s = addHose f t s"
| "apply_op (AddHoseCurved f t) s = addHoseCurved f t s"
| "apply_op (AddFreeformHoseWithPoints f t) s = addFreeformHoseWithPoints f t s"
| "apply_op AddDiagramHoses s = addDiagramHoses s"
| "apply_op AddDefaultDiagramHoses s = addDefaultDiagramHoses s"

definition run :: "op list \<Rightarrow> fountain \<Rightarrow> fountain" where
  "run ops s = fold apply_op ops s"

section \<open>Notions used by the properties\<close>

text \<open>
  \<open>pool_only s t\<close>: the state \<open>t\<close> differs from \<open>s\<close> at most in the particle pool, the
  ripple list and the number of random draws, and the pool keeps its size.
\<close>

definition pool_only :: "fountain \<Rightarrow> fountain \<Rightarrow> bool" where
  "pool_only s t \<longleftrightarrow>
     t = s\<lparr>particles := particles t, random_count := random_count t,
           activeRipples := activeRipples t\<rparr> \<and>
     length (particles t) = length (particles s)"

text \<open>
  \<open>tick_only s t\<close>: \<open>t\<close> differs from \<open>s\<close> at most in what the steps of a tick before
  \<open>checkAutoFlip\<close> write: levels, pressure, the air-line flag, the absorption height and
  the particle subsystem.
\<close>

definition tick_only :: "fountain \<Rightarrow> fountain \<Rightarrow> bool" where
  "tick_only s t \<longleftrightarrow>
     t = s\<lparr>particles := particles t, waterLevels := waterLevels t, airPressure := airPressure t,
           activeRipples := activeRipples t, absorbY := absorbY t,
           airLineConnected := airLineConnected t, random_count := random_count t\<rparr> \<and>
     length (particles t) = length (particles s)"

text \<open>A stream of random draws for concrete runs: \<open>Math.random()\<close> returns \<open>0\<close> each time.\<close>

definition zero_random :: "nat \<Rightarrow> real" where
  "zero_random n = 0"

text \<open>
  The pressure formula in the words of the specification: \<open>clamp01\<close> of
  \<open>sealFactor \<times> (head \<times> 2.0 + 0.5 \<times> inflowFactor)\<close> with \<open>sealFactor\<close> 1.0 or 0.2,
  \<open>head = max(0, level[Reservoir] - level[Basin])\<close> and
  \<open>inflowFactor = clamp01((1 - level[Top]) + level[Reservoir])\<close>, where Top, Basin and
  Reservoir are the keys \<open>A\<close>, \<open>B\<close> and \<open>C\<close>.
\<close>

definition clamp01 :: "jsnum \<Rightarrow> jsnum" where
  "clamp01 v = Math_max (Num 0) (Math_min (Num 1) v)"

definition spec_pressure :: "bool \<Rightarrow> (key \<Rightarrow> jsnum) \<Rightarrow> jsnum" where
  "spec_pressure airLine level =
     (let sealFactor = (if airLine then Num 1.0 else Num 0.2);
          head = Math_max (Num 0) (level C - level B);
          inflowFactor = clamp01 ((Num 1 - level A) + level C)
      in clamp01 (sealFactor * (head * Num 2.0 + Num 0.5 * inflowFactor)))"

text \<open>The sum of the three levels, and the levels being numbers.\<close>

definition total :: "fountain \<Rightarrow> jsnum" where
  "total s = waterLevels s A + waterLevels s B + waterLevels s C"

text \<open>
  What the riser step takes from \<open>B\<close> in a tick: the level of \<open>B\<close> before the step minus the
  level after it.
\<close>

definition riserLoss :: "jsnum \<Rightarrow> fountain \<Rightarrow> jsnum" where
  "riserLoss deltaTime s =
     waterLevels (drainStep deltaTime s) B -
     waterLevels (riserStep deltaTime (drainStep deltaTime s)) B"

definition finite_levels :: "fountain \<Rightarrow> bool" where
  "finite_levels s \<longleftrightarrow>
     is_finite (waterLevels s A) \<and> is_finite (waterLevels s B) \<and> is_finite (waterLevels s C)"

definition levels_in_unit :: "fountain \<Rightarrow> bool" where
  "levels_in_unit s \<longleftrightarrow>
     in_unit (waterLevels s A) \<and> in_unit (waterLevels s B) \<and> in_unit (waterLevels s C)"

text \<open>
  The water transfer of one tick with exactly the three canonical hoses, in closed form on
  reals: the drain (\<open>m1\<close>), the riser (\<open>m2\<close>), then the hose loop on the drain hose
  (\<open>m3\<close>, from \<open>A\<close> to \<open>C\<close>) and on the riser hose (\<open>m4\<close>, from \<open>B\<close> to \<open>A\<close>). The
  arguments are flow intensity, pressure, time step and the levels of \<open>A\<close>, \<open>B\<close>, \<open>C\<close>;
  the result is the three new levels. It is proved equal to \<open>updateWaterFlow\<close> below.
\<close>

definition canonicalFlow ::
  "real \<Rightarrow> real \<Rightarrow> real \<Rightarrow> real \<Rightarrow> real \<Rightarrow> real \<Rightarrow> real \<times> real \<times> real" where
  "canonicalFlow f p d a b c =
     (let m1 = min (min (0.03 * f * d) b) (1 - c);
          b1 = b - m1;
          c1 = c + m1;
          m2 = (if 0.05 < p \<and> 0 < b1 then min (0.0625 * f * p * d) b1 else 0);
          b2 = b1 - m2;
          m3 = max 0 (min (min (0.045 * f * d) a) (1 - c1));
          a3 = a - m3;
          m4 = max 0 (min (min (0.045 * f * d * 1.6) b2) (1 - a3))
      in (a3 + m4, b2 - m4, c1 + m3))"

text \<open>
  Two concrete runs from a new fountain, in ticks of 1/60 s: the state after the first
  tick and the state after the second.
\<close>

definition after_tick1 :: fountain where
  "after_tick1 = snd (update 0 (Num (1 / 60)) (Fountain_new zero_random))"

definition after_tick2 :: fountain where
  "after_tick2 = snd (update 0 (Num (1 / 60)) after_tick1)"

text \<open>
  Two more runs from a new fountain: a tick of 1/60 s after \<open>setFlowIntensity(NaN)\<close>, and a
  tick with the negative time step \<open>-1\<close>.
\<close>

definition nan_tick :: fountain where
  "nan_tick = snd (update 0 (Num (1 / 60)) (setFlowIntensity NaN (Fountain_new zero_random)))"

definition backward_tick :: fountain where
  "backward_tick = snd (update 0 (Num (- 1)) (Fountain_new zero_random))"



text \<open>
  A run with a flip: \<open>flipSystem\<close> on a new fountain at time 0, one tick of 1/60 s during
  the transition, and the animation frame at 1000 ms that completes it.
\<close>

definition flip_started :: fountain where
  "flip_started = flipSystem 0 (Fountain_new zero_random)"

definition flip_running :: fountain where
  "flip_running = snd (update 16 (Num (1 / 60)) flip_started)"

definition flip_completed :: fountain where
  "flip_completed = animationFrame 1000 flip_running"

text \<open>The number of particles alive: those whose mesh is visible.\<close>

definition countVisible :: "particle list \<Rightarrow> nat" where
  "countVisible ps = length (filter visible ps)"

text \<open>
  The state after the first tick of a new fountain and a right click on container \<open>C\<close>,
  which removes the drain and the air line and keeps the riser.
\<close>

definition airline_removed :: fountain where
  "airline_removed = removeHosesForContainer C after_tick1"

text \<open>The state after the first tick with every slot of the pool taken.\<close>

definition pool_exhausted :: fountain where
  "pool_exhausted =
     after_tick1\<lparr>particles := map (\<lambda>p. p\<lparr>visible := True\<rparr>) (particles after_tick1)\<rparr>"

text \<open>
  The jet particle that \<open>createFountainParticles\<close> emits when every random draw is \<open>0\<close>,
  for a jet height \<open>fh\<close> and an absorption height \<open>ay\<close>.
\<close>

definition jet0 :: "jsnum \<Rightarrow> jsnum \<Rightarrow> particle" where
  "jet0 fh ay =
     \<lparr>visible = True,
      position = vec_add
        (vec_lerp spoutTip_worldPosition (Vector3 (Num 0) ay (Num 0)) (Num 0.22))
        (Vector3 ((Num 0 - Num 0.5) * Num 0.01) (Num 0) ((Num 0 - Num 0.5) * Num 0.01)),
      velocity = vec_add
        (vec_multiplyScalar (Vector3 (Num 0) (Num (- 1)) (Num 0))
           (fh * (Num 1.0 + Num 0 * Num 0.3)))
        (Vector3 ((Num 0 - Num 0.5) * Num 0.02) ((Num 0 - Num 0.5) * Num 0.04)
           ((Num 0 - Num 0.5) * Num 0.02)),
      life = Num 0, maxLife = Num 0.9 + Num 0 * Num 0.8\<rparr>"

text \<open>
  The tests of \<open>updateParticles\<close> on the new position \<open>p\<close> of a particle: it hit the
  bottom of the bowl, it left the cull radius near the surface, it hit the water surface
  at height \<open>ay\<close>.
\<close>

definition hitsBottom :: "vec3 \<Rightarrow> bool" where
  "hitsBottom p \<longleftrightarrow>
     vec_y p \<le> bowl_bottomY - Num 0.2 \<and>
     vec_x p * vec_x p + vec_z p * vec_z p \<le> bowl_innerTopR * bowl_innerTopR"

definition culledOutside :: "jsnum \<Rightarrow> vec3 \<Rightarrow> bool" where
  "culledOutside ay p \<longleftrightarrow>
     (bowl_innerTopR + Num 0.15) * (bowl_innerTopR + Num 0.15)
       < vec_x p * vec_x p + vec_z p * vec_z p \<and>
     vec_y p \<le> ay + Num 0.2"

definition hitsSurface :: "jsnum \<Rightarrow> vec3 \<Rightarrow> bool" where
  "hitsSurface ay p \<longleftrightarrow>
     vec_y p \<le> ay \<and>
     vec_x p * vec_x p + vec_z p * vec_z p \<le> bowl_innerTopR * bowl_innerTopR"

text \<open>
  \<open>stays dt ay particle\<close>: none of the four retirement tests fires on the particle in a
  tick of \<open>dt\<close> with absorption height \<open>ay\<close>.
\<close>

definition stays :: "jsnum \<Rightarrow> jsnum \<Rightarrow> particle \<Rightarrow> bool" where
  "stays dt ay particle =
     (let p = vec_add (position particle) (vec_multiplyScalar (velocity particle) dt)
      in \<not> hitsBottom p \<and> \<not> culledOutside ay p \<and> \<not> hitsSurface ay p \<and>
         \<not> maxLife particle \<le> life particle + dt)"


text \<open>
  The state after the first tick with the levels \<open>A = 3\<close>, \<open>B = 0\<close>, \<open>C = 0.5\<close> written into
  it: the air line is connected and the bowl level is above 1.
\<close>

definition overfull_bowl :: fountain where
  "overfull_bowl =
     after_tick1\<lparr>waterLevels := initialLevels(A := Num 3, B := Num 0, C := Num 0.5)\<rparr>"

section \<open>Frame conditions of the particle subsystem\<close>

lemma pool_only_refl: "pool_only s s"
  by (simp add: pool_only_def)

lemma pool_only_trans:
  assumes "pool_only s t" and "pool_only t u"
  shows "pool_only s u"
proof -
  from assms(1) have eq1: "t = s\<lparr>particles := particles t, random_count := random_count t,
           activeRipples := activeRipples t\<rparr>" by (simp add: pool_only_def)
  from assms(2) have eq2: "u = t\<lparr>particles := particles u, random_count := random_count u,
           activeRipples := activeRipples u\<rparr>" by (simp add: pool_only_def)
  have "u = s\<lparr>particles := particles u, random_count := random_count u,
           activeRipples := activeRipples u\<rparr>"
    by (subst eq2, subst eq1) simp
  moreover have "length (particles u) = length (particles s)"
    using assms by (simp add: pool_only_def)
  ultimately show ?thesis by (simp add: pool_only_def)
qed

lemma pool_only_fields:
  assumes "pool_only s t"
  shows "hoses t = hoses s" "waterLevels t = waterLevels s" "airPressure t = airPressure s"
    "flowIntensity t = flowIntensity s" "isActive t = isActive s" "isFlipping t = isFlipping s"
    "airLineConnected t = airLineConnected s" "sideGroup t = sideGroup s"
    "flipCallbacks t = flipCallbacks s" "time t = time s" "absorbY t = absorbY s"
    "spoutTip t = spoutTip s" "random_src t = random_src s" "pendingHoseStart t = pendingHoseStart s"
    "sidePivot t = sidePivot s" "streamMaterial t = streamMaterial s"
    "basinSurfaceMaterial t = basinSurfaceMaterial s" "length (particles t) = length (particles s)"
proof -
  from assms have eq: "t = s\<lparr>particles := particles t, random_count := random_count t,
           activeRipples := activeRipples t\<rparr>" by (simp add: pool_only_def)
  show "hoses t = hoses s" by (subst eq) simp
  show "waterLevels t = waterLevels s" by (subst eq) simp
  show "airPressure t = airPressure s" by (subst eq) simp
  show "flowIntensity t = flowIntensity s" by (subst eq) simp
  show "isActive t = isActive s" by (subst eq) simp
  show "isFlipping t = isFlipping s" by (subst eq) simp
  show "airLineConnected t = airLineConnected s" by (subst eq) simp
  show "sideGroup t = sideGroup s" by (subst eq) simp
  show "flipCallbacks t = flipCallbacks s" by (subst eq) simp
  show "time t = time s" by (subst eq) simp
  show "absorbY t = absorbY s" by (subst eq) simp
  show "spoutTip t = spoutTip s" by (subst eq) simp
  show "random_src t = random_src s" by (subst eq) simp
  show "pendingHoseStart t = pendingHoseStart s" by (subst eq) simp
  show "sidePivot t = sidePivot s" by (subst eq) simp
  show "streamMaterial t = streamMaterial s" by (subst eq) simp
  show "basinSurfaceMaterial t = basinSurfaceMaterial s" by (subst eq) simp
  show "length (particles t) = length (particles s)" using assms by (simp add: pool_only_def)
qed

lemma pool_only_funpow:
  assumes "\<And>s. pool_only s (f s)"
  shows "pool_only s ((f ^^ n) s)"
proof (induction n)
  case 0
  show ?case by (simp add: pool_only_refl)
next
  case (Suc n)
  have "pool_only ((f ^^ n) s) (f ((f ^^ n) s))" by (rule assms)
  with Suc show ?case by (simp add: pool_only_trans)
qed

lemma pool_only_fold:
  assumes "\<And>x s. pool_only s (f x s)"
  shows "pool_only s (fold f xs s)"
proof (induction xs arbitrary: s)
  case Nil
  show ?case by (simp add: pool_only_refl)
next
  case (Cons x xs)
  have "pool_only s (f x s)" by (rule assms)
  moreover have "pool_only (f x s) (fold f xs (f x s))" by (rule Cons.IH)
  ultimately show ?case by (simp add: pool_only_trans)
qed


lemma pool_only_emitParticle: "pool_only s (emitParticle fh s)"
proof (cases "findIndex (\<lambda>p. \<not> visible p) (particles s)")
  case None
  then show ?thesis by (simp add: emitParticle_def pool_only_refl)
next
  case (Some i)
  then show ?thesis
    unfolding emitParticle_def Math_random_def Let_def pool_only_def
    by (simp add: split_def)
qed

lemma pool_only_createFountainParticles: "pool_only s (createFountainParticles s)"
  unfolding createFountainParticles_def Let_def
  by (simp add: pool_only_refl pool_only_funpow pool_only_emitParticle)

lemma pool_only_splashParticle: "pool_only s (splashParticle p s)"
proof (cases "findIndex (\<lambda>p. \<not> visible p) (particles s)")
  case None
  then show ?thesis by (simp add: splashParticle_def pool_only_refl)
next
  case (Some i)
  then show ?thesis
    unfolding splashParticle_def Math_random_def Let_def pool_only_def
    by (simp add: split_def)
qed

lemma pool_only_spawnSplash: "pool_only s (spawnSplash p s)"
proof -
  have "pool_only s (s\<lparr>random_count := Suc (random_count s)\<rparr>)"
    by (simp add: pool_only_def)
  moreover have "pool_only (s\<lparr>random_count := Suc (random_count s)\<rparr>)
     ((splashParticle p ^^ n) (s\<lparr>random_count := Suc (random_count s)\<rparr>))" for n
    by (rule pool_only_funpow) (rule pool_only_splashParticle)
  ultimately show ?thesis
    unfolding spawnSplash_def Math_random_def Let_def
    by (simp add: split_def pool_only_trans)
qed

lemma pool_only_setVisible: "pool_only s (setVisible i v s)"
  by (simp add: setVisible_def pool_only_def)

lemma pool_only_pushRipple: "pool_only s (pushRipple p s)"
  by (simp add: pushRipple_def pool_only_def Let_def)


lemma pool_only_if:
  "(c \<Longrightarrow> pool_only s a) \<Longrightarrow> (\<not> c \<Longrightarrow> pool_only s b) \<Longrightarrow> pool_only s (if c then a else b)"
  by simp

lemma pool_only_then_setVisible: "pool_only s t \<Longrightarrow> pool_only s (setVisible i v t)"
  by (erule pool_only_trans) (rule pool_only_setVisible)

lemma pool_only_then_pushRipple: "pool_only s t \<Longrightarrow> pool_only s (pushRipple p t)"
  by (erule pool_only_trans) (rule pool_only_pushRipple)

lemma pool_only_then_spawnSplash: "pool_only s t \<Longrightarrow> pool_only s (spawnSplash p t)"
  by (erule pool_only_trans) (rule pool_only_spawnSplash)

lemma pool_only_then_store:
  "pool_only s t \<Longrightarrow> pool_only s (t\<lparr>particles := (particles t)[i := q]\<rparr>)"
  by (erule pool_only_trans) (simp add: pool_only_def)

lemma pool_only_updateParticle: "pool_only s (updateParticle dt i s)"
  unfolding updateParticle_def Let_def
  by (intro pool_only_if pool_only_then_setVisible pool_only_then_pushRipple
        pool_only_then_spawnSplash pool_only_then_store pool_only_refl)

lemma pool_only_updateParticles: "pool_only s (updateParticles dt s)"
  unfolding updateParticles_def
  by (rule pool_only_fold) (rule pool_only_updateParticle)

section \<open>Frame conditions of a tick\<close>

lemma tick_only_refl: "tick_only s s"
  by (simp add: tick_only_def)

lemma tick_only_trans:
  assumes "tick_only s t" and "tick_only t u"
  shows "tick_only s u"
proof -
  from assms(1) have eq1: "t = s\<lparr>particles := particles t, waterLevels := waterLevels t,
      airPressure := airPressure t, activeRipples := activeRipples t, absorbY := absorbY t,
      airLineConnected := airLineConnected t, random_count := random_count t\<rparr>"
    by (simp add: tick_only_def)
  from assms(2) have eq2: "u = t\<lparr>particles := particles u, waterLevels := waterLevels u,
      airPressure := airPressure u, activeRipples := activeRipples u, absorbY := absorbY u,
      airLineConnected := airLineConnected u, random_count := random_count u\<rparr>"
    by (simp add: tick_only_def)
  have "u = s\<lparr>particles := particles u, waterLevels := waterLevels u,
      airPressure := airPressure u, activeRipples := activeRipples u, absorbY := absorbY u,
      airLineConnected := airLineConnected u, random_count := random_count u\<rparr>"
    by (subst eq2, subst eq1) simp
  moreover have "length (particles u) = length (particles s)"
    using assms by (simp add: tick_only_def)
  ultimately show ?thesis by (simp add: tick_only_def)
qed

lemma tick_only_fields:
  assumes "tick_only s t"
  shows "hoses t = hoses s" "flowIntensity t = flowIntensity s" "isActive t = isActive s"
    "isFlipping t = isFlipping s" "sideGroup t = sideGroup s"
    "flipCallbacks t = flipCallbacks s" "time t = time s"
    "spoutTip t = spoutTip s" "random_src t = random_src s"
    "pendingHoseStart t = pendingHoseStart s" "sidePivot t = sidePivot s"
    "streamMaterial t = streamMaterial s" "basinSurfaceMaterial t = basinSurfaceMaterial s"
    "length (particles t) = length (particles s)"
proof -
  from assms have eq: "t = s\<lparr>particles := particles t, waterLevels := waterLevels t,
      airPressure := airPressure t, activeRipples := activeRipples t, absorbY := absorbY t,
      airLineConnected := airLineConnected t, random_count := random_count t\<rparr>"
    by (simp add: tick_only_def)
  show "hoses t = hoses s" by (subst eq) simp
  show "flowIntensity t = flowIntensity s" by (subst eq) simp
  show "isActive t = isActive s" by (subst eq) simp
  show "isFlipping t = isFlipping s" by (subst eq) simp
  show "sideGroup t = sideGroup s" by (subst eq) simp
  show "flipCallbacks t = flipCallbacks s" by (subst eq) simp
  show "time t = time s" by (subst eq) simp
  show "spoutTip t = spoutTip s" by (subst eq) simp
  show "random_src t = random_src s" by (subst eq) simp
  show "pendingHoseStart t = pendingHoseStart s" by (subst eq) simp
  show "sidePivot t = sidePivot s" by (subst eq) simp
  show "streamMaterial t = streamMaterial s" by (subst eq) simp
  show "basinSurfaceMaterial t = basinSurfaceMaterial s" by (subst eq) simp
  show "length (particles t) = length (particles s)" using assms by (simp add: tick_only_def)
qed

lemma pool_only_tick_only:
  assumes a: "pool_only s t"
  shows "tick_only s t"
proof -
  from a have eq: "t = s\<lparr>particles := particles t, random_count := random_count t,
           activeRipples := activeRipples t\<rparr>" by (simp add: pool_only_def)
  have w: "waterLevels t = waterLevels s" and p: "airPressure t = airPressure s"
    and y: "absorbY t = absorbY s" and c: "airLineConnected t = airLineConnected s"
    using pool_only_fields [OF a] by blast+
  have "s\<lparr>particles := particles t, waterLevels := waterLevels t,
      airPressure := airPressure t, activeRipples := activeRipples t, absorbY := absorbY t,
      airLineConnected := airLineConnected t, random_count := random_count t\<rparr>
     = s\<lparr>particles := particles t, random_count := random_count t,
           activeRipples := activeRipples t\<rparr>"
    by (simp add: w p y c)
  with eq have "t = s\<lparr>particles := particles t, waterLevels := waterLevels t,
      airPressure := airPressure t, activeRipples := activeRipples t, absorbY := absorbY t,
      airLineConnected := airLineConnected t, random_count := random_count t\<rparr>"
    by simp
  moreover have "length (particles t) = length (particles s)"
    using a by (simp add: pool_only_def)
  ultimately show ?thesis by (simp add: tick_only_def)
qed

lemma tick_only_fold:
  assumes "\<And>x s. tick_only s (f x s)"
  shows "tick_only s (fold f xs s)"
proof (induction xs arbitrary: s)
  case Nil
  show ?case by (simp add: tick_only_refl)
next
  case (Cons x xs)
  have "tick_only s (f x s)" by (rule assms)
  moreover have "tick_only (f x s) (fold f xs (f x s))" by (rule Cons.IH)
  ultimately show ?case by (simp add: tick_only_trans)
qed

lemma tick_only_levels: "tick_only s (s\<lparr>waterLevels := w\<rparr>)"
  by (simp add: tick_only_def)

lemma tick_only_drainStep: "tick_only s (drainStep dt s)"
  by (simp add: drainStep_def Let_def tick_only_levels tick_only_refl)

lemma tick_only_createFountainParticles: "tick_only s (createFountainParticles s)"
  by (rule pool_only_tick_only) (rule pool_only_createFountainParticles)

lemma tick_only_riserStep: "tick_only s (riserStep dt s)"
proof -
  have "tick_only s (createFountainParticles (s\<lparr>waterLevels := w\<rparr>))" for w
    by (rule tick_only_trans [OF tick_only_levels tick_only_createFountainParticles])
  then show ?thesis
    unfolding riserStep_def Let_def
    by (simp add: tick_only_refl tick_only_levels)
qed

lemma tick_only_hoseFlow: "tick_only s (hoseFlow r h s)"
  by (simp add: hoseFlow_def Let_def tick_only_levels tick_only_refl)

lemma tick_only_updateWaterFlow: "tick_only s (updateWaterFlow dt s)"
proof -
  let ?s2 = "riserStep dt (drainStep dt s)"
  have "tick_only s ?s2"
    by (rule tick_only_trans [OF tick_only_drainStep tick_only_riserStep])
  moreover have "tick_only ?s2 (?s2\<lparr>airLineConnected := b\<rparr>)" for b
    by (simp add: tick_only_def)
  ultimately have "tick_only s (?s2\<lparr>airLineConnected := b\<rparr>)" for b
    by (rule tick_only_trans)
  then show ?thesis
    unfolding updateWaterFlow_def Let_def
    by (rule tick_only_trans) (rule tick_only_fold, rule tick_only_hoseFlow)
qed

lemma tick_only_updateAirPressure: "tick_only s (updateAirPressure s)"
  by (simp add: updateAirPressure_def Let_def tick_only_def)

lemma tick_only_updateWaterLevels: "tick_only s (updateWaterLevels s)"
  by (simp add: updateWaterLevels_def Let_def tick_only_def)

lemma tick_only_updateParticles: "tick_only s (updateParticles dt s)"
  by (rule pool_only_tick_only) (rule pool_only_updateParticles)

lemma tick_only_beforeAutoFlip: "tick_only s (beforeAutoFlip dt s)"
  unfolding beforeAutoFlip_def
  by (rule tick_only_trans [OF tick_only_updateWaterFlow
        tick_only_trans [OF tick_only_updateAirPressure
          tick_only_trans [OF tick_only_updateParticles tick_only_updateWaterLevels]]])

section \<open>Invariants of every operation\<close>

lemma animateFlip_isActive: "isActive (animateFlip now s) = isActive s"
  by (simp add: animateFlip_def)

lemma flipSystem_isActive: "isActive s \<Longrightarrow> isActive (flipSystem now s)"
  by (simp add: flipSystem_def Let_def animateFlip_def)

lemma checkAutoFlip_isActive: "isActive s \<Longrightarrow> isActive (checkAutoFlip now s)"
  by (simp add: checkAutoFlip_def Let_def flipSystem_isActive)

lemma advanceTime_isActive: "isActive (advanceTime dt s) = isActive s"
  by (simp add: advanceTime_def Let_def)

lemma update_isActive: "isActive s \<Longrightarrow> isActive (snd (update now dt s))"
  by (simp add: update_def Let_def advanceTime_isActive checkAutoFlip_isActive
      tick_only_fields(3) [OF tick_only_beforeAutoFlip])

lemma flipStep_isActive: "isActive (flipStep now start s) = isActive s"
  by (simp add: flipStep_def Let_def)

lemma fold_flipStep_isActive: "isActive (fold (flipStep now) cbs s) = isActive s"
  by (induction cbs arbitrary: s) (simp_all add: flipStep_isActive)

lemma animationFrame_isActive: "isActive (animationFrame now s) = isActive s"
  by (simp add: animationFrame_def fold_flipStep_isActive)

lemma apply_op_isActive: "isActive s \<Longrightarrow> isActive (apply_op x s)"
proof (cases x)
  case (Update now dt)
  then show "isActive s \<Longrightarrow> ?thesis" by (simp add: update_isActive)
next
  case (FlipSystem now)
  then show "isActive s \<Longrightarrow> ?thesis" by (simp add: flipSystem_isActive)
next
  case (AnimationFrame now)
  then show "isActive s \<Longrightarrow> ?thesis" by (simp add: animationFrame_isActive)
next
  case (HandleContainerClick k)
  then show "isActive s \<Longrightarrow> ?thesis"
    by (simp add: handleContainerClick_def addHose_def split: option.splits)
qed (simp_all add: setFlowIntensity_def resetSystem_def removeHosesForContainer_def addHose_def
      addHoseCurved_def addFreeformHoseWithPoints_def addDiagramHoses_def
      addDefaultDiagramHoses_def)

lemma fold_apply_op_isActive: "isActive s \<Longrightarrow> isActive (fold apply_op xs s)"
  by (induction xs arbitrary: s) (simp_all add: apply_op_isActive)

lemma Fountain_new_isActive: "isActive (Fountain_new rnd)"
proof -
  have "isActive ((newParticle ^^ n) s) = isActive s" for n s
    by (induction n) (simp_all add: newParticle_def Math_random_def)
  then show ?thesis
    by (simp add: Fountain_new_def addDefaultDiagramHoses_def createParticleSystem_def
        Fountain_fields_def)
qed

text \<open>
  C10. In every state reached from the constructor by any sequence of \<open>update\<close>,
  \<open>flipSystem\<close>, \<open>resetSystem\<close>, \<open>setFlowIntensity\<close>, animation frames and hose additions and
  removals, \<open>isActive\<close> is true: no operation writes \<open>false\<close> to it, so \<open>update\<close> never takes
  its early return and \<open>getStatus()\<close> reports \<open>isActive = true\<close>.
\<close>

theorem isActive_always:
  "isActive (run ops (Fountain_new rnd)) \<and>
   status_isActive (getStatus (run ops (Fountain_new rnd)))"
  by (simp add: run_def getStatus_def fold_apply_op_isActive Fountain_new_isActive)

text \<open>
  C8. \<open>resetSystem\<close>, in any state (a state in the middle of a flip included), restores the
  initial levels \<open>A = 0.75\<close>, \<open>B = 1.0\<close>, \<open>C = 0.26\<close>, zeroes the pressure, clears
  \<open>isFlipping\<close> and leaves no hose at all, hence no non-canonical one.
\<close>

theorem resetSystem_restores:
  "waterLevels (resetSystem s) A = Num 0.75 \<and>
   waterLevels (resetSystem s) B = Num 1.0 \<and>
   waterLevels (resetSystem s) C = Num 0.26 \<and>
   airPressure (resetSystem s) = Num 0 \<and>
   isFlipping (resetSystem s) = False \<and>
   hoses (resetSystem s) = []"
  by (simp add: resetSystem_def initialLevels_def)

section \<open>The pressure model\<close>

lemma updateWaterFlow_airLineConnected:
  "airLineConnected (updateWaterFlow dt s) = hasAirLine (hoses s)"
proof -
  let ?s2 = "riserStep dt (drainStep dt s)"
  have h: "hoses ?s2 = hoses s"
    using tick_only_fields(1) [OF tick_only_trans [OF tick_only_drainStep tick_only_riserStep]] .
  have "airLineConnected (fold (hoseFlow r) hs u) = airLineConnected u" for r hs u
    by (induction hs arbitrary: u) (simp_all add: hoseFlow_def Let_def)
  then show ?thesis
    by (simp add: updateWaterFlow_def Let_def h)
qed

lemma updateAirPressure_eq_spec:
  assumes "waterLevels s A = Num a" "waterLevels s B = Num b" "waterLevels s C = Num c"
    and "a \<le> 1" "0 \<le> b"
  shows "airPressure (updateAirPressure s) = spec_pressure (airLineConnected s) (waterLevels s)"
proof (cases "0 \<le> 1 - a + c")
  case True
  then have "min 1 (1 - a + c) = max 0 (min 1 (1 - a + c))" by simp
  then show ?thesis
    using assms by (simp add: updateAirPressure_def spec_pressure_def clamp01_def Let_def)
next
  case False
  then have neg: "1 - a + c < 0" by simp
  with assms have head: "max 0 (c - b) = 0" by simp
  have m1: "min 1 (1 - a + c) = 1 - a + c" using neg by simp
  have m2: "max 0 (min 1 (1 - a + c)) = 0" using neg by simp
  have "max 0 (min 1 (k * (1 - a + c) / 2)) = 0" if "0 \<le> k" for k :: real
  proof -
    have "k * (1 - a + c) \<le> 0" using that neg by (simp add: mult_nonneg_nonpos)
    then show ?thesis by simp
  qed
  from this [of 1] this [of "1/5"] show ?thesis
    using assms head
    by (simp add: updateAirPressure_def spec_pressure_def clamp01_def Let_def m1 m2)
qed

lemma updateAirPressure_in_unit:
  assumes "waterLevels s A = Num a" "waterLevels s B = Num b" "waterLevels s C = Num c"
  shows "in_unit (airPressure (updateAirPressure s))"
  using assms by (simp add: updateAirPressure_def Let_def)


section \<open>The constructed fountain\<close>

lemma newParticle_eq:
  "newParticle t =
     t\<lparr>random_count := Suc (random_count t),
       particles := particles t @
         [\<lparr>visible = False, position = Vector3 (Num 0) (Num 0) (Num 0),
           velocity = Vector3 (Num 0) (Num 0) (Num 0), life = Num 0,
           maxLife = Num 2 + Num (random_src t (random_count t)) * Num 2\<rparr>]\<rparr>"
  by (simp add: newParticle_def Math_random_def)

lemma funpow_newParticle:
  "(newParticle ^^ n) s =
     s\<lparr>particles := particles ((newParticle ^^ n) s), random_count := random_count s + n\<rparr> \<and>
   length (particles ((newParticle ^^ n) s)) = length (particles s) + n \<and>
   (list_all (\<lambda>p. \<not> visible p) (particles s) \<longrightarrow>
      list_all (\<lambda>p. \<not> visible p) (particles ((newParticle ^^ n) s)))"
proof (induction n)
  case 0
  show ?case by simp
next
  case (Suc n)
  define t where "t = (newParticle ^^ n) s"
  have step: "(newParticle ^^ Suc n) s = newParticle t" by (simp add: t_def)
  from Suc have eq: "t = s\<lparr>particles := particles t, random_count := random_count s + n\<rparr>"
    and len: "length (particles t) = length (particles s) + n"
    and vis: "list_all (\<lambda>p. \<not> visible p) (particles s) \<longrightarrow>
      list_all (\<lambda>p. \<not> visible p) (particles t)"
    unfolding t_def by blast+
  have rc: "random_count t = random_count s + n" by (subst eq) simp
  have "newParticle t = t\<lparr>particles := particles (newParticle t),
          random_count := Suc (random_count t)\<rparr>"
    by (simp add: newParticle_eq)
  then have "newParticle t = s\<lparr>particles := particles (newParticle t),
          random_count := random_count s + Suc n\<rparr>"
    by (subst (asm) (2) eq) (simp add: rc)
  moreover have "length (particles (newParticle t)) = length (particles s) + Suc n"
    using len by (simp add: newParticle_eq)
  moreover have "list_all (\<lambda>p. \<not> visible p) (particles s) \<longrightarrow>
      list_all (\<lambda>p. \<not> visible p) (particles (newParticle t))"
    using vis by (simp add: newParticle_eq)
  ultimately show ?case unfolding step by blast
qed

lemma Fountain_new_eq:
  "Fountain_new rnd =
     \<lparr>hoses = [drainHose, airLineHose, riserHose], pendingHoseStart = None,
      particles = particles (Fountain_new rnd), waterLevels = initialLevels,
      airPressure = Num 0, flowIntensity = Num 0.25, isActive = True, time = Num 0,
      activeRipples = [], isFlipping = False, absorbY = Num 3.6, airLineConnected = False,
      spoutTip = True, sideGroup = True, sidePivot = False, streamMaterial = True,
      basinSurfaceMaterial = True, flipCallbacks = [], random_src = rnd,
      random_count = maxParticles\<rparr>"
  unfolding Fountain_new_def createParticleSystem_def addDefaultDiagramHoses_def
  by (subst (1) conjunct1 [OF funpow_newParticle]) (simp add: Fountain_fields_def)

lemma Fountain_new_fields:
  "hoses (Fountain_new rnd) = [drainHose, airLineHose, riserHose]"
  "waterLevels (Fountain_new rnd) = initialLevels"
  "airPressure (Fountain_new rnd) = Num 0"
  "flowIntensity (Fountain_new rnd) = Num 0.25"
  "isActive (Fountain_new rnd) = True"
  "isFlipping (Fountain_new rnd) = False"
  "airLineConnected (Fountain_new rnd) = False"
  "spoutTip (Fountain_new rnd) = True"
  "sideGroup (Fountain_new rnd) = True"
  "flipCallbacks (Fountain_new rnd) = []"
  "absorbY (Fountain_new rnd) = Num 3.6"
  "streamMaterial (Fountain_new rnd) = True"
  "basinSurfaceMaterial (Fountain_new rnd) = True"
  "time (Fountain_new rnd) = Num 0"
  "activeRipples (Fountain_new rnd) = []"
  by (subst Fountain_new_eq, simp)+

lemma Fountain_new_particles:
  "length (particles (Fountain_new rnd)) = maxParticles"
  "list_all (\<lambda>p. \<not> visible p) (particles (Fountain_new rnd))"
  using funpow_newParticle [of maxParticles "(Fountain_fields rnd)\<lparr>sideGroup := True\<rparr>"]
  by (simp_all add: Fountain_new_def createParticleSystem_def addDefaultDiagramHoses_def
      Fountain_fields_def)


section \<open>Arithmetic of the water transfer\<close>

lemma is_finite_iff: "is_finite v \<longleftrightarrow> (\<exists>a. v = Num a)"
  by (cases v) simp_all

lemma in_unit_iff: "in_unit v \<longleftrightarrow> (\<exists>a. v = Num a \<and> 0 \<le> a \<and> a \<le> 1)"
  by (cases v) simp_all

lemma finite_levelsE:
  assumes "finite_levels s"
  obtains a b c where "waterLevels s A = Num a" "waterLevels s B = Num b"
    "waterLevels s C = Num c"
  using assms unfolding finite_levels_def is_finite_iff by blast

lemma finite_levels_key: "finite_levels s \<Longrightarrow> is_finite (waterLevels s k)"
  by (cases k) (simp_all add: finite_levels_def)

text \<open>The callback of step 4 on numbers: what it moves, and where.\<close>

lemma hoseFlow_levels:
  assumes "waterLevels s (hose_from h) = Num x" "waterLevels s (hose_to h) = Num y"
  shows "waterLevels (hoseFlow (Num r) h s) =
     (if startObj h = Some C_top \<and> endObj h = Some B_top then waterLevels s
      else
        let q = (if startObj h = Some B_bottom \<or> startObj h = Some C_bottom
                 then r * 1.6 else r);
            m = max 0 (min (min q x) (1 - y))
        in if 0 < m
           then (if hose_from h = hose_to h then waterLevels s
                 else (waterLevels s)(hose_from h := Num (x - m), hose_to h := Num (y + m)))
           else waterLevels s)"
proof (cases "startObj h = Some C_top \<and> endObj h = Some B_top")
  case True
  then show ?thesis by (simp add: hoseFlow_def)
next
  case False
  define q where "q = (if startObj h = Some B_bottom \<or> startObj h = Some C_bottom
                 then r * 1.6 else r)"
  define m where "m = max 0 (min (min q x) (1 - y))"
  have rate: "(if startObj h = Some B_bottom \<or> startObj h = Some C_bottom
        then Num r * Num 1.6 else Num r) = Num q"
    by (simp add: q_def)
  have moved: "Math_max (Num 0) (Math_min3 (Num q) (Num x) (Num 1 - Num y)) = Num m"
    by (simp add: Math_min3_def m_def)
  have code: "waterLevels (hoseFlow (Num r) h s) =
     (if 0 < m
      then ((waterLevels s)(hose_from h := Num x - Num m))
             (hose_to h := ((waterLevels s)(hose_from h := Num x - Num m)) (hose_to h) + Num m)
      else waterLevels s)"
    unfolding hoseFlow_def Let_def rate assms moved if_not_P [OF False] by simp
  have spec: "(if startObj h = Some C_top \<and> endObj h = Some B_top then waterLevels s
      else
        let q = (if startObj h = Some B_bottom \<or> startObj h = Some C_bottom
                 then r * 1.6 else r);
            m = max 0 (min (min q x) (1 - y))
        in if 0 < m
           then (if hose_from h = hose_to h then waterLevels s
                 else (waterLevels s)(hose_from h := Num (x - m), hose_to h := Num (y + m)))
           else waterLevels s) =
     (if 0 < m
           then (if hose_from h = hose_to h then waterLevels s
                 else (waterLevels s)(hose_from h := Num (x - m), hose_to h := Num (y + m)))
           else waterLevels s)"
    unfolding Let_def q_def [symmetric] m_def [symmetric] if_not_P [OF False] by simp
  show ?thesis
  proof (cases "hose_from h = hose_to h")
    case True
    with assms have "y = x" by simp
    have "((waterLevels s)(hose_to h := Num x - Num m))
             (hose_to h := ((waterLevels s)(hose_to h := Num x - Num m)) (hose_to h) + Num m)
          = waterLevels s"
      using assms(2) \<open>y = x\<close> by (simp add: fun_upd_idem_iff)
    then show ?thesis unfolding code spec using True by simp
  next
    case ne: False
    have "((waterLevels s)(hose_from h := Num x - Num m))
             (hose_to h := ((waterLevels s)(hose_from h := Num x - Num m)) (hose_to h) + Num m)
          = (waterLevels s)(hose_from h := Num (x - m), hose_to h := Num (y + m))"
      using assms(2) ne by simp
    then show ?thesis unfolding code spec using ne by simp
  qed
qed


lemma transfer_props:
  fixes w :: "key \<Rightarrow> jsnum" and m :: real
  assumes ft: "f \<noteq> t" and wf: "w f = Num x" and wt: "w t = Num y"
    and fin: "is_finite (w A)" "is_finite (w B)" "is_finite (w C)"
  defines "w' \<equiv> w(f := Num (x - m), t := Num (y + m))"
  shows "is_finite (w' k)"
    and "w' A + w' B + w' C = w A + w B + w C"
    and "0 < m \<Longrightarrow> m \<le> x \<Longrightarrow> Num 0 \<le> w k \<Longrightarrow> Num 0 \<le> w' k"
    and "0 < m \<Longrightarrow> m \<le> 1 - y \<Longrightarrow> w k \<le> Num 1 \<Longrightarrow> w' k \<le> Num 1"
proof -
  from fin obtain a b c where abc: "w A = Num a" "w B = Num b" "w C = Num c"
    unfolding is_finite_iff by blast
  have k: "is_finite (w k)" using fin by (cases k) simp_all
  show "is_finite (w' k)" using k by (simp add: w'_def)
  show "w' A + w' B + w' C = w A + w B + w C"
    using ft wf wt abc by (cases f; cases t) (simp_all add: w'_def)
  show "Num 0 \<le> w' k" if "0 < m" "m \<le> x" "Num 0 \<le> w k"
  proof (cases "k = t")
    case True
    with that wt show ?thesis by (simp add: w'_def)
  next
    case False
    with that wf show ?thesis by (cases "k = f") (simp_all add: w'_def)
  qed
  show "w' k \<le> Num 1" if "0 < m" "m \<le> 1 - y" "w k \<le> Num 1"
  proof (cases "k = t")
    case True
    with that wt show ?thesis by (simp add: w'_def)
  next
    case False
    with that wf show ?thesis by (cases "k = f") (simp_all add: w'_def)
  qed
qed

lemma hoseFlow_step:
  assumes fin: "finite_levels s"
  shows "finite_levels (hoseFlow (Num r) h s) \<and>
         total (hoseFlow (Num r) h s) = total s \<and>
         (Num 0 \<le> waterLevels s k \<longrightarrow> Num 0 \<le> waterLevels (hoseFlow (Num r) h s) k) \<and>
         (waterLevels s k \<le> Num 1 \<longrightarrow> waterLevels (hoseFlow (Num r) h s) k \<le> Num 1)"
proof -
  from finite_levels_key [OF fin] obtain x y
    where x: "waterLevels s (hose_from h) = Num x" and y: "waterLevels s (hose_to h) = Num y"
    unfolding is_finite_iff by blast
  define q where "q = (if startObj h = Some B_bottom \<or> startObj h = Some C_bottom
                 then r * 1.6 else r)"
  define m where "m = max 0 (min (min q x) (1 - y))"
  let ?w = "waterLevels s"
  let ?w' = "(waterLevels s)(hose_from h := Num (x - m), hose_to h := Num (y + m))"
  consider (same) "waterLevels (hoseFlow (Num r) h s) = ?w"
    | (moved) "waterLevels (hoseFlow (Num r) h s) = ?w'" "0 < m" "hose_from h \<noteq> hose_to h"
    unfolding hoseFlow_levels [OF x y] Let_def q_def [symmetric] m_def [symmetric]
    by (cases "startObj h = Some C_top \<and> endObj h = Some B_top"; cases "0 < m";
        cases "hose_from h = hose_to h") simp_all
  then show ?thesis
  proof cases
    case same
    then show ?thesis using fin by (simp add: finite_levels_def total_def)
  next
    case moved
    have f: "is_finite (?w A)" "is_finite (?w B)" "is_finite (?w C)"
      using fin by (simp_all add: finite_levels_def)
    have mx: "m \<le> x" and my: "m \<le> 1 - y" using moved(2) unfolding m_def by linarith+
    note tp = transfer_props [OF moved(3) x y f, where m = m]
    show ?thesis
      unfolding finite_levels_def total_def moved(1)
      using tp(1) [where k = A] tp(1) [where k = B] tp(1) [where k = C] tp(2)
        tp(3) [OF moved(2) mx, where k = k] tp(4) [OF moved(2) my, where k = k]
      by blast
  qed
qed

lemma fold_hoseFlow:
  assumes "finite_levels s"
  shows "finite_levels (fold (hoseFlow (Num r)) hs s) \<and>
         total (fold (hoseFlow (Num r)) hs s) = total s \<and>
         (Num 0 \<le> waterLevels s k \<longrightarrow> Num 0 \<le> waterLevels (fold (hoseFlow (Num r)) hs s) k) \<and>
         (waterLevels s k \<le> Num 1 \<longrightarrow> waterLevels (fold (hoseFlow (Num r)) hs s) k \<le> Num 1)"
  using assms
proof (induction hs arbitrary: s)
  case Nil
  then show ?case by simp
next
  case (Cons h hs)
  note st = hoseFlow_step [OF Cons.prems, of r h k]
  from st have "finite_levels (hoseFlow (Num r) h s)" by blast
  note ih = Cons.IH [OF this]
  from st ih show ?case by simp
qed

lemma in_unit_bounds: "in_unit v \<longleftrightarrow> Num 0 \<le> v \<and> v \<le> Num 1"
  by (cases v) simp_all

lemma in_unit_finite: "in_unit v \<Longrightarrow> is_finite v"
  by (cases v) simp_all

lemma drainStep_levels:
  assumes "waterLevels s B = Num b" "waterLevels s C = Num c" "flowIntensity s = Num f"
  shows "waterLevels (drainStep (Num d) s) =
     (if hasDrain (hoses s)
      then (waterLevels s)(B := Num (b - min (min (0.03 * f * d) b) (1 - c)),
                           C := Num (c + min (min (0.03 * f * d) b) (1 - c)))
      else waterLevels s)"
  using assms by (simp add: drainStep_def Let_def Math_min3_def flowRate_def)

lemma drainStep_others:
  "airPressure (drainStep dt s) = airPressure s"
  "flowIntensity (drainStep dt s) = flowIntensity s"
  "hoses (drainStep dt s) = hoses s"
  "airLineConnected (drainStep dt s) = airLineConnected s"
  "spoutTip (drainStep dt s) = spoutTip s"
  "particles (drainStep dt s) = particles s"
  by (simp_all add: drainStep_def Let_def)

lemma riserStep_levels:
  assumes "waterLevels s B = Num b" "flowIntensity s = Num f" "airPressure s = Num p"
  shows "waterLevels (riserStep (Num d) s) =
     (if hasRiser (hoses s) \<and> 0.05 < p \<and> 0 < b
      then (waterLevels s)(B := Num (b - min (0.0625 * f * p * d) b))
      else waterLevels s)"
proof -
  have "waterLevels (createFountainParticles u) = waterLevels u" for u
    by (rule pool_only_fields(2) [OF pool_only_createFountainParticles])
  then show ?thesis
    using assms by (simp add: riserStep_def Let_def flowRate_def)
qed

lemma riserStep_others:
  "airPressure (riserStep dt s) = airPressure s"
  "flowIntensity (riserStep dt s) = flowIntensity s"
  "hoses (riserStep dt s) = hoses s"
  "airLineConnected (riserStep dt s) = airLineConnected s"
proof -
  have "airPressure (createFountainParticles u) = airPressure u"
    "flowIntensity (createFountainParticles u) = flowIntensity u"
    "hoses (createFountainParticles u) = hoses u"
    "airLineConnected (createFountainParticles u) = airLineConnected u" for u
    using pool_only_fields [OF pool_only_createFountainParticles [of u]] by simp_all
  then show "airPressure (riserStep dt s) = airPressure s"
    "flowIntensity (riserStep dt s) = flowIntensity s"
    "hoses (riserStep dt s) = hoses s"
    "airLineConnected (riserStep dt s) = airLineConnected s"
    by (simp_all add: riserStep_def Let_def)
qed

text \<open>The levels after \<open>updateWaterFlow\<close>, as the fold of step 4 over the earlier steps.\<close>

lemma updateWaterFlow_levels:
  assumes "flowIntensity s = Num f"
  shows "waterLevels (updateWaterFlow (Num d) s) =
     waterLevels (fold (hoseFlow (Num (0.045 * f * d))) (hoses s)
        ((riserStep (Num d) (drainStep (Num d) s))
           \<lparr>airLineConnected := hasAirLine (hoses s)\<rparr>))"
  using assms
  by (simp add: updateWaterFlow_def Let_def riserStep_others drainStep_others flowRate_def)

lemma updateWaterFlow_pressure: "airPressure (updateWaterFlow dt s) = airPressure s"
proof -
  have "airPressure (fold (hoseFlow r) hs u) = airPressure u" for r hs u
    by (induction hs arbitrary: u) (simp_all add: hoseFlow_def Let_def)
  then show ?thesis
    by (simp add: updateWaterFlow_def Let_def riserStep_others drainStep_others)
qed


text \<open>
  The first three steps of \<open>updateWaterFlow\<close> on numbers: the levels after the drain and
  the riser, for any sign of the time step.
\<close>

lemma drain_riser_levels:
  fixes d :: real
  assumes l: "waterLevels s A = Num a" "waterLevels s B = Num b" "waterLevels s C = Num c"
    and f: "flowIntensity s = Num f" and p: "airPressure s = Num p"
  defines "m1 \<equiv> (if hasDrain (hoses s) then min (min (0.03 * f * d) b) (1 - c) else 0)"
  defines "b1 \<equiv> b - m1"
  defines "m2 \<equiv> (if hasRiser (hoses s) \<and> 0.05 < p \<and> 0 < b1
                   then min (0.0625 * f * p * d) b1 else 0)"
  defines "s2 \<equiv> riserStep (Num d) (drainStep (Num d) s)"
  shows "waterLevels s2 A = Num a" "waterLevels s2 B = Num (b1 - m2)"
    "waterLevels s2 C = Num (c + m1)" "riserLoss (Num d) s = Num m2"
proof -
  let ?s1 = "drainStep (Num d) s"
  have s1: "waterLevels ?s1 A = Num a" "waterLevels ?s1 B = Num b1"
    "waterLevels ?s1 C = Num (c + m1)"
    using l by (simp_all add: drainStep_levels [OF l(2,3) f] m1_def b1_def)
  have f1: "flowIntensity ?s1 = Num f" and p1: "airPressure ?s1 = Num p"
    and h1: "hoses ?s1 = hoses s"
    using f p by (simp_all add: drainStep_others)
  note r = riserStep_levels [OF s1(2) f1 p1, of d]
  show "waterLevels s2 A = Num a" "waterLevels s2 B = Num (b1 - m2)"
    "waterLevels s2 C = Num (c + m1)"
    unfolding s2_def r using s1 by (simp_all add: h1 m2_def)
  then show "riserLoss (Num d) s = Num m2"
    unfolding riserLoss_def s2_def [symmetric] using s1 by simp
qed

lemma updateWaterFlow_any:
  assumes a: "in_unit (waterLevels s A)" and b: "Num 0 \<le> waterLevels s B"
    and c: "is_finite (waterLevels s C)"
    and f: "is_finite (flowIntensity s)" and p: "is_finite (airPressure s)"
  shows "finite_levels (updateWaterFlow (Num d) s)"
    "in_unit (waterLevels (updateWaterFlow (Num d) s) A)"
    "Num 0 \<le> waterLevels (updateWaterFlow (Num d) s) B"
proof -
  from a b c f p obtain a' b' c' f' p' where
    l: "waterLevels s A = Num a'" "waterLevels s B = Num b'" "waterLevels s C = Num c'"
    and fp: "flowIntensity s = Num f'" "airPressure s = Num p'"
    and r: "0 \<le> a'" "a' \<le> 1" "0 \<le> b'"
    by (cases "waterLevels s A"; cases "waterLevels s B"; cases "waterLevels s C";
        cases "flowIntensity s"; cases "airPressure s") simp_all
  define s3 where "s3 = (riserStep (Num d) (drainStep (Num d) s))
           \<lparr>airLineConnected := hasAirLine (hoses s)\<rparr>"
  note dr = drain_riser_levels [OF l fp, where d = d]
  have l3: "waterLevels s3 A = Num a'" "is_finite (waterLevels s3 B)"
    "is_finite (waterLevels s3 C)"
    using dr by (simp_all add: s3_def)
  have "min (min q b') e \<le> b'" for q e :: real
    by linarith
  then have "b' - (if hasDrain (hoses s) then min (min (0.03 * f' * d) b') (1 - c') else 0) \<ge> 0"
    using r by (simp del: min_le_iff_disj min_less_iff_conj)
  then have b3: "Num 0 \<le> waterLevels s3 B"
    using dr(2) by (simp add: s3_def)
  have fin: "finite_levels s3" using l3 by (simp add: finite_levels_def)
  have eq: "waterLevels (updateWaterFlow (Num d) s) =
      waterLevels (fold (hoseFlow (Num (0.045 * f' * d))) (hoses s) s3)"
    unfolding s3_def by (rule updateWaterFlow_levels [OF fp(1)])
  note fh = fold_hoseFlow [OF fin, of "0.045 * f' * d" "hoses s"]
  show "finite_levels (updateWaterFlow (Num d) s)"
    using fh [of A] by (simp add: finite_levels_def eq)
  show "in_unit (waterLevels (updateWaterFlow (Num d) s) A)"
    using fh [of A] l3(1) r by (simp add: eq in_unit_bounds)
  show "Num 0 \<le> waterLevels (updateWaterFlow (Num d) s) B"
    using fh [of B] b3 by (simp add: eq)
qed

lemma updateWaterFlow_forward:
  assumes u: "levels_in_unit s" and f: "flowIntensity s = Num f" "0 \<le> f"
    and p: "airPressure s = Num p" and d: "0 \<le> d"
  shows "levels_in_unit (updateWaterFlow (Num d) s)"
    "total (updateWaterFlow (Num d) s) = total s - riserLoss (Num d) s"
    "\<exists>l. riserLoss (Num d) s = Num l \<and> 0 \<le> l"
    "p \<le> 0.05 \<Longrightarrow> riserLoss (Num d) s = Num 0"
proof -
  from u obtain a b c where
    l: "waterLevels s A = Num a" "waterLevels s B = Num b" "waterLevels s C = Num c"
    and r: "0 \<le> a" "a \<le> 1" "0 \<le> b" "b \<le> 1" "0 \<le> c" "c \<le> 1"
    unfolding levels_in_unit_def in_unit_iff by blast
  define m1 where "m1 = (if hasDrain (hoses s) then min (min (0.03 * f * d) b) (1 - c) else 0)"
  define b1 where "b1 = b - m1"
  define m2 where "m2 = (if hasRiser (hoses s) \<and> 0.05 < p \<and> 0 < b1
                   then min (0.0625 * f * p * d) b1 else 0)"
  define s3 where "s3 = (riserStep (Num d) (drainStep (Num d) s))
           \<lparr>airLineConnected := hasAirLine (hoses s)\<rparr>"
  have dr: "waterLevels (riserStep (Num d) (drainStep (Num d) s)) A = Num a"
    "waterLevels (riserStep (Num d) (drainStep (Num d) s)) B = Num (b1 - m2)"
    "waterLevels (riserStep (Num d) (drainStep (Num d) s)) C = Num (c + m1)"
    "riserLoss (Num d) s = Num m2"
    unfolding m2_def b1_def m1_def by (rule drain_riser_levels [OF l f(1) p])+
  define q where "q = 0.03 * f * d"
  have q: "0 \<le> q" using f(2) d by (simp add: q_def)
  have m1q: "m1 = (if hasDrain (hoses s) then min (min q b) (1 - c) else 0)"
    by (simp add: m1_def q_def)
  have m1: "0 \<le> m1" "m1 \<le> b" "m1 \<le> 1 - c"
    using q r unfolding m1q by (auto simp: min_def)
  have b1: "0 \<le> b1" "b1 \<le> 1" using m1 r by (simp_all add: b1_def)
  define q2 where "q2 = 0.0625 * f * p * d"
  have q2: "0 \<le> q2" if "0.05 < p"
    using that f(2) d by (simp add: q2_def)
  have m2q: "m2 = (if hasRiser (hoses s) \<and> 0.05 < p \<and> 0 < b1 then min q2 b1 else 0)"
    by (simp add: m2_def q2_def)
  have m2: "0 \<le> m2" "m2 \<le> b1"
    using b1 q2 unfolding m2q by (auto simp: min_def)
  have l3: "waterLevels s3 A = Num a" "waterLevels s3 B = Num (b1 - m2)"
    "waterLevels s3 C = Num (c + m1)"
    using dr by (simp_all add: s3_def)
  have fin: "finite_levels s3" using l3 by (simp add: finite_levels_def)
  have eq: "waterLevels (updateWaterFlow (Num d) s) =
      waterLevels (fold (hoseFlow (Num (0.045 * f * d))) (hoses s) s3)"
    unfolding s3_def by (rule updateWaterFlow_levels [OF f(1)])
  note fh = fold_hoseFlow [OF fin, of "0.045 * f * d" "hoses s"]
  have u3: "Num 0 \<le> waterLevels s3 k \<and> waterLevels s3 k \<le> Num 1" for k
    using l3 r m1 m2 b1 by (cases k) simp_all
  have "in_unit (waterLevels (updateWaterFlow (Num d) s) k)" for k
    using fh [of k] u3 [of k] by (simp add: eq in_unit_bounds)
  then show "levels_in_unit (updateWaterFlow (Num d) s)"
    by (simp add: levels_in_unit_def)
  have "total (updateWaterFlow (Num d) s) = total s3"
    using fh [of A] by (simp add: total_def eq)
  also have "\<dots> = total s - riserLoss (Num d) s"
    using l l3 dr(4) by (simp add: total_def b1_def)
  finally show "total (updateWaterFlow (Num d) s) = total s - riserLoss (Num d) s" .
  show "\<exists>l. riserLoss (Num d) s = Num l \<and> 0 \<le> l"
    using dr(4) m2 by blast
  show "riserLoss (Num d) s = Num 0" if "p \<le> 0.05"
    using dr(4) that by (simp add: m2_def)
qed

section \<open>A whole tick on numbers\<close>

lemma updateWaterLevels_fields:
  "waterLevels (updateWaterLevels s) A = waterLevels s A"
  "waterLevels (updateWaterLevels s) B = Math_max (Num 0) (Math_min (Num 1) (waterLevels s B))"
  "waterLevels (updateWaterLevels s) C = Math_max (Num 0) (Math_min (Num 1) (waterLevels s C))"
  "airPressure (updateWaterLevels s) = airPressure s"
  by (simp_all add: updateWaterLevels_def Let_def)

lemma clamp_in_unit: "is_finite v \<Longrightarrow> in_unit (Math_max (Num 0) (Math_min (Num 1) v))"
  by (cases v) simp_all

lemma clamp_id: "in_unit v \<Longrightarrow> Math_max (Num 0) (Math_min (Num 1) v) = v"
  by (cases v) simp_all

lemma updateWaterLevels_id:
  "levels_in_unit s \<Longrightarrow> waterLevels (updateWaterLevels s) k = waterLevels s k"
  by (cases k) (simp_all add: updateWaterLevels_fields levels_in_unit_def clamp_id)

lemma updateAirPressure_levels: "waterLevels (updateAirPressure s) = waterLevels s"
  by (simp add: updateAirPressure_def Let_def)

lemma updateParticles_levels:
  "waterLevels (updateParticles dt s) = waterLevels s"
  "airPressure (updateParticles dt s) = airPressure s"
  using pool_only_fields [OF pool_only_updateParticles [of s dt]] by simp_all

lemma beforeAutoFlip_levels:
  "waterLevels (beforeAutoFlip dt s) =
     waterLevels (updateWaterLevels (updateAirPressure (updateWaterFlow dt s)))"
  by (simp add: beforeAutoFlip_def updateWaterLevels_def Let_def updateParticles_levels)

lemma beforeAutoFlip_pressure:
  "airPressure (beforeAutoFlip dt s) = airPressure (updateAirPressure (updateWaterFlow dt s))"
  by (simp add: beforeAutoFlip_def updateWaterLevels_fields updateParticles_levels)

lemma beforeAutoFlip_any:
  assumes "in_unit (waterLevels s A)" "Num 0 \<le> waterLevels s B" "is_finite (waterLevels s C)"
    and "is_finite (flowIntensity s)" "is_finite (airPressure s)"
  shows "levels_in_unit (beforeAutoFlip (Num d) s)"
    and "in_unit (airPressure (beforeAutoFlip (Num d) s))"
proof -
  let ?s1 = "updateWaterFlow (Num d) s"
  note wf = updateWaterFlow_any [OF assms, of d]
  from wf(1) obtain a b c where
    l: "waterLevels ?s1 A = Num a" "waterLevels ?s1 B = Num b" "waterLevels ?s1 C = Num c"
    by (rule finite_levelsE)
  show "levels_in_unit (beforeAutoFlip (Num d) s)"
    using wf(2) l
    by (simp add: levels_in_unit_def beforeAutoFlip_levels updateWaterLevels_fields
        updateAirPressure_levels)
  show "in_unit (airPressure (beforeAutoFlip (Num d) s))"
    unfolding beforeAutoFlip_pressure by (rule updateAirPressure_in_unit [OF l])
qed

lemma beforeAutoFlip_forward:
  assumes u: "levels_in_unit s" and f: "flowIntensity s = Num f" "0 \<le> f"
    and p: "airPressure s = Num p" and d: "0 \<le> d"
  shows "levels_in_unit (beforeAutoFlip (Num d) s)"
    and "total (beforeAutoFlip (Num d) s) = total s - riserLoss (Num d) s"
    and "waterLevels (beforeAutoFlip (Num d) s) = waterLevels (updateWaterFlow (Num d) s)"
proof -
  let ?s1 = "updateWaterFlow (Num d) s"
  note wf = updateWaterFlow_forward [OF u f p d]
  have u2: "levels_in_unit (updateAirPressure ?s1)"
    using wf(1) by (simp add: levels_in_unit_def updateAirPressure_levels)
  have eq: "waterLevels (beforeAutoFlip (Num d) s) k = waterLevels ?s1 k" for k
    unfolding beforeAutoFlip_levels updateWaterLevels_id [OF u2]
    by (simp add: updateAirPressure_levels)
  then show "waterLevels (beforeAutoFlip (Num d) s) = waterLevels ?s1"
    by (rule ext)
  then show "levels_in_unit (beforeAutoFlip (Num d) s)"
    using wf(1) by (simp add: levels_in_unit_def)
  show "total (beforeAutoFlip (Num d) s) = total s - riserLoss (Num d) s"
    using wf(2) by (simp add: total_def eq)
qed

lemma flipSystem_levels:
  "waterLevels (flipSystem now s) =
     (if isFlipping s then waterLevels s
      else (waterLevels s)(B := waterLevels s C, C := waterLevels s B))"
  "airPressure (flipSystem now s) = (if isFlipping s then airPressure s else Num 0)"
  by (simp_all add: flipSystem_def Let_def animateFlip_def)

lemma checkAutoFlip_cases:
  obtains (stay) "checkAutoFlip now s = s"
  | (flip) "\<not> isFlipping s" "checkAutoFlip now s = flipSystem now s"
proof (cases "isFlipping s \<or>
    \<not> (Num 0.98 \<le> waterLevels s C \<or> waterLevels s B \<le> Num 0.02)")
  case True
  then have "checkAutoFlip now s = s" by (auto simp: checkAutoFlip_def Let_def)
  then show ?thesis by (rule stay)
next
  case False
  then have "\<not> isFlipping s" "checkAutoFlip now s = flipSystem now s"
    by (auto simp: checkAutoFlip_def Let_def)
  then show ?thesis by (rule flip)
qed

lemma checkAutoFlip_in_unit:
  assumes "levels_in_unit s" "in_unit (airPressure s)"
  shows "levels_in_unit (checkAutoFlip now s)" "in_unit (airPressure (checkAutoFlip now s))"
proof -
  have "levels_in_unit (checkAutoFlip now s) \<and> in_unit (airPressure (checkAutoFlip now s))"
  proof (cases rule: checkAutoFlip_cases [of now s])
    case stay
    with assms show ?thesis by simp
  next
    case flip
    with assms show ?thesis by (simp add: levels_in_unit_def flipSystem_levels)
  qed
  then show "levels_in_unit (checkAutoFlip now s)" "in_unit (airPressure (checkAutoFlip now s))"
    by blast+
qed

lemma checkAutoFlip_total:
  assumes "finite_levels s"
  shows "total (checkAutoFlip now s) = total s"
proof (cases rule: checkAutoFlip_cases [of now s])
  case stay
  then show ?thesis by simp
next
  case flip
  from assms obtain a b c where
    "waterLevels s A = Num a" "waterLevels s B = Num b" "waterLevels s C = Num c"
    by (rule finite_levelsE)
  with flip show ?thesis by (simp add: total_def flipSystem_levels)
qed

lemma advanceTime_levels:
  "waterLevels (advanceTime dt s) = waterLevels s"
  "airPressure (advanceTime dt s) = airPressure s"
  by (simp_all add: advanceTime_def Let_def)

lemma update_levels:
  "isActive s \<Longrightarrow>
     waterLevels (snd (update now dt s)) = waterLevels (checkAutoFlip now (beforeAutoFlip dt s))"
  "isActive s \<Longrightarrow>
     airPressure (snd (update now dt s)) = airPressure (checkAutoFlip now (beforeAutoFlip dt s))"
  by (simp_all add: update_def Let_def advanceTime_levels)

lemma levels_in_unit_finite: "levels_in_unit s \<Longrightarrow> finite_levels s"
  by (simp add: levels_in_unit_def finite_levels_def in_unit_finite)

section \<open>The tick with the canonical hoses\<close>

lemma canonical_has:
  "hasDrain [drainHose, airLineHose, riserHose]"
  "hasRiser [drainHose, airLineHose, riserHose]"
  "hasAirLine [drainHose, airLineHose, riserHose]"
  by (simp_all add: hasDrain_def hasRiser_def hasAirLine_def drainHose_def airLineHose_def
      riserHose_def)

lemma hoseFlow_airLineHose: "hoseFlow r airLineHose s = s"
  by (simp add: hoseFlow_def airLineHose_def)

lemma hoseFlow_drainHose:
  assumes "waterLevels s A = Num a" "waterLevels s C = Num c"
  shows "waterLevels (hoseFlow (Num r) drainHose s) =
     (waterLevels s)(A := Num (a - max 0 (min (min r a) (1 - c))),
                     C := Num (c + max 0 (min (min r a) (1 - c))))"
proof -
  have "(waterLevels s)(A := Num a, C := Num c) = waterLevels s"
    using assms by (auto simp: fun_eq_iff)
  moreover have "max 0 (min (min r a) (1 - c)) \<le> 0 \<Longrightarrow> max 0 (min (min r a) (1 - c)) = 0"
    by linarith
  ultimately show ?thesis
    using hoseFlow_levels [of s drainHose a c r] assms
    by (cases "0 < max 0 (min (min r a) (1 - c))")
       (simp_all add: drainHose_def Let_def del: max_less_iff_conj less_max_iff_disj)
qed

lemma hoseFlow_riserHose:
  assumes "waterLevels s B = Num b" "waterLevels s A = Num a"
  shows "waterLevels (hoseFlow (Num r) riserHose s) =
     (waterLevels s)(B := Num (b - max 0 (min (min (r * 1.6) b) (1 - a))),
                     A := Num (a + max 0 (min (min (r * 1.6) b) (1 - a))))"
proof -
  have "(waterLevels s)(B := Num b, A := Num a) = waterLevels s"
    using assms by (auto simp: fun_eq_iff)
  moreover have "max 0 (min (min (r * 1.6) b) (1 - a)) \<le> 0 \<Longrightarrow>
      max 0 (min (min (r * 1.6) b) (1 - a)) = 0"
    by linarith
  ultimately show ?thesis
    using hoseFlow_levels [of s riserHose b a r] assms
    by (cases "0 < max 0 (min (min (r * 1.6) b) (1 - a))")
       (simp_all add: riserHose_def Let_def del: max_less_iff_conj less_max_iff_disj)
qed

lemma canonical_updateWaterFlow:
  fixes d :: real
  assumes h: "hoses s = [drainHose, airLineHose, riserHose]"
    and l: "waterLevels s A = Num a" "waterLevels s B = Num b" "waterLevels s C = Num c"
    and f: "flowIntensity s = Num f" and p: "airPressure s = Num p"
  shows "waterLevels (updateWaterFlow (Num d) s) A = Num (fst (canonicalFlow f p d a b c))"
    and "waterLevels (updateWaterFlow (Num d) s) B = Num (fst (snd (canonicalFlow f p d a b c)))"
    and "waterLevels (updateWaterFlow (Num d) s) C = Num (snd (snd (canonicalFlow f p d a b c)))"
proof -
  define m1 where "m1 = min (min (0.03 * f * d) b) (1 - c)"
  define b1 where "b1 = b - m1"
  define c1 where "c1 = c + m1"
  define m2 where "m2 = (if 0.05 < p \<and> 0 < b1 then min (0.0625 * f * p * d) b1 else 0)"
  define b2 where "b2 = b1 - m2"
  define m3 where "m3 = max 0 (min (min (0.045 * f * d) a) (1 - c1))"
  define a3 where "a3 = a - m3"
  define m4 where "m4 = max 0 (min (min (0.045 * f * d * 1.6) b2) (1 - a3))"
  define s3 where "s3 = (riserStep (Num d) (drainStep (Num d) s))
           \<lparr>airLineConnected := hasAirLine (hoses s)\<rparr>"
  have cf: "canonicalFlow f p d a b c = (a3 + m4, b2 - m4, c1 + m3)"
    unfolding canonicalFlow_def Let_def m4_def a3_def m3_def b2_def m2_def c1_def b1_def m1_def
    by (rule refl)
  have l3: "waterLevels s3 A = Num a" "waterLevels s3 B = Num b2" "waterLevels s3 C = Num c1"
    using drain_riser_levels [OF l f p, where d = d]
    by (simp_all add: s3_def h canonical_has b2_def m2_def b1_def c1_def m1_def)
  define s4 where "s4 = hoseFlow (Num (0.045 * f * d)) drainHose s3"
  have l4: "waterLevels s4 A = Num a3" "waterLevels s4 B = Num b2"
    "waterLevels s4 C = Num (c1 + m3)"
    unfolding s4_def hoseFlow_drainHose [OF l3(1,3)] using l3(2)
    by (simp_all add: a3_def m3_def)
  define s5 where "s5 = hoseFlow (Num (0.045 * f * d)) riserHose s4"
  have l5: "waterLevels s5 A = Num (a3 + m4)" "waterLevels s5 B = Num (b2 - m4)"
    "waterLevels s5 C = Num (c1 + m3)"
    unfolding s5_def hoseFlow_riserHose [OF l4(2,1)] using l4(3)
    by (simp_all add: m4_def)
  have eq: "waterLevels (updateWaterFlow (Num d) s) = waterLevels s5"
    unfolding updateWaterFlow_levels [OF f] h s5_def s4_def s3_def
    by (simp add: hoseFlow_airLineHose h)
  show "waterLevels (updateWaterFlow (Num d) s) A = Num (fst (canonicalFlow f p d a b c))"
    and "waterLevels (updateWaterFlow (Num d) s) B = Num (fst (snd (canonicalFlow f p d a b c)))"
    and "waterLevels (updateWaterFlow (Num d) s) C = Num (snd (snd (canonicalFlow f p d a b c)))"
    unfolding eq cf using l5 by simp_all
qed

section \<open>What a tick leaves alone\<close>

lemma animateFlip_others:
  "hoses (animateFlip now s) = hoses s" "flowIntensity (animateFlip now s) = flowIntensity s"
  "sideGroup (animateFlip now s) = sideGroup s" "spoutTip (animateFlip now s) = spoutTip s"
  "particles (animateFlip now s) = particles s"
  "airLineConnected (animateFlip now s) = airLineConnected s"
  by (simp_all add: animateFlip_def)

lemma flipSystem_others:
  "hoses (flipSystem now s) = hoses s" "flowIntensity (flipSystem now s) = flowIntensity s"
  "sideGroup (flipSystem now s) = sideGroup s" "spoutTip (flipSystem now s) = spoutTip s"
  "particles (flipSystem now s) = particles s"
  "airLineConnected (flipSystem now s) = airLineConnected s"
  by (simp_all add: flipSystem_def Let_def animateFlip_others)

lemma checkAutoFlip_others:
  "hoses (checkAutoFlip now s) = hoses s"
  "flowIntensity (checkAutoFlip now s) = flowIntensity s"
  "sideGroup (checkAutoFlip now s) = sideGroup s" "spoutTip (checkAutoFlip now s) = spoutTip s"
  "particles (checkAutoFlip now s) = particles s"
  "airLineConnected (checkAutoFlip now s) = airLineConnected s"
  by (simp_all add: checkAutoFlip_def Let_def flipSystem_others)

lemma advanceTime_others:
  "hoses (advanceTime dt s) = hoses s" "flowIntensity (advanceTime dt s) = flowIntensity s"
  "sideGroup (advanceTime dt s) = sideGroup s" "spoutTip (advanceTime dt s) = spoutTip s"
  "particles (advanceTime dt s) = particles s" "isFlipping (advanceTime dt s) = isFlipping s"
  "airLineConnected (advanceTime dt s) = airLineConnected s"
  "flipCallbacks (advanceTime dt s) = flipCallbacks s"
  by (simp_all add: advanceTime_def Let_def)

lemma update_state:
  "snd (update now dt s) = s \<or> snd (update now dt s) = checkAutoFlip now (beforeAutoFlip dt s)
   \<or> snd (update now dt s) = advanceTime dt (checkAutoFlip now (beforeAutoFlip dt s))"
  by (simp add: update_def Let_def)

lemma update_others:
  "hoses (snd (update now dt s)) = hoses s"
  "flowIntensity (snd (update now dt s)) = flowIntensity s"
  "sideGroup (snd (update now dt s)) = sideGroup s"
  "spoutTip (snd (update now dt s)) = spoutTip s"
  "length (particles (snd (update now dt s))) = length (particles s)"
proof -
  note t = tick_only_fields [OF tick_only_beforeAutoFlip [of s dt]]
  show "hoses (snd (update now dt s)) = hoses s"
    using update_state [of now dt s] t(1)
    by (auto simp: advanceTime_others checkAutoFlip_others)
  show "flowIntensity (snd (update now dt s)) = flowIntensity s"
    using update_state [of now dt s] t(2)
    by (auto simp: advanceTime_others checkAutoFlip_others)
  show "sideGroup (snd (update now dt s)) = sideGroup s"
    using update_state [of now dt s] t(5)
    by (auto simp: advanceTime_others checkAutoFlip_others)
  show "spoutTip (snd (update now dt s)) = spoutTip s"
    using update_state [of now dt s] t(8)
    by (auto simp: advanceTime_others checkAutoFlip_others)
  show "length (particles (snd (update now dt s))) = length (particles s)"
    using update_state [of now dt s] t(14)
    by (auto simp: advanceTime_others checkAutoFlip_others)
qed

lemma update_airLineConnected:
  "isActive s \<Longrightarrow> airLineConnected (snd (update now dt s)) = hasAirLine (hoses s)"
proof -
  have "airLineConnected (beforeAutoFlip dt s) = hasAirLine (hoses s)"
    using pool_only_fields(7) [OF pool_only_updateParticles]
    by (simp add: beforeAutoFlip_def updateWaterLevels_def updateAirPressure_def Let_def
        updateWaterFlow_airLineConnected)
  then show "isActive s \<Longrightarrow> ?thesis"
    by (simp add: update_def Let_def advanceTime_others checkAutoFlip_others)
qed

lemma update_no_flip:
  assumes "isActive s"
    and "\<not> Num 0.98 \<le> waterLevels (beforeAutoFlip dt s) C"
    and "\<not> waterLevels (beforeAutoFlip dt s) B \<le> Num 0.02"
  shows "waterLevels (snd (update now dt s)) = waterLevels (beforeAutoFlip dt s)"
    and "airPressure (snd (update now dt s)) = airPressure (beforeAutoFlip dt s)"
    and "isFlipping (snd (update now dt s)) = isFlipping s"
    and "isActive (snd (update now dt s))"
proof -
  have c: "checkAutoFlip now (beforeAutoFlip dt s) = beforeAutoFlip dt s"
    using assms(2,3) by (simp add: checkAutoFlip_def Let_def)
  note t = tick_only_fields [OF tick_only_beforeAutoFlip [of s dt]]
  show "waterLevels (snd (update now dt s)) = waterLevels (beforeAutoFlip dt s)"
    and "airPressure (snd (update now dt s)) = airPressure (beforeAutoFlip dt s)"
    using assms(1) by (simp_all add: update_levels c)
  show "isFlipping (snd (update now dt s)) = isFlipping s"
    using assms(1) t(4) by (simp add: update_def Let_def c advanceTime_others)
  show "isActive (snd (update now dt s))"
    using assms(1) by (rule update_isActive)
qed

text \<open>The state before \<open>checkAutoFlip\<close> of a tick with the canonical hoses.\<close>

lemma canonical_beforeAutoFlip:
  fixes d :: real
  assumes h: "hoses s = [drainHose, airLineHose, riserHose]"
    and l: "waterLevels s A = Num a" "waterLevels s B = Num b" "waterLevels s C = Num c"
    and f: "flowIntensity s = Num f" and p: "airPressure s = Num p"
  defines "a' \<equiv> fst (canonicalFlow f p d a b c)"
  defines "b' \<equiv> fst (snd (canonicalFlow f p d a b c))"
  defines "c' \<equiv> snd (snd (canonicalFlow f p d a b c))"
  shows "waterLevels (beforeAutoFlip (Num d) s) A = Num a'"
    and "waterLevels (beforeAutoFlip (Num d) s) B = Num (max 0 (min 1 b'))"
    and "waterLevels (beforeAutoFlip (Num d) s) C = Num (max 0 (min 1 c'))"
    and "airPressure (beforeAutoFlip (Num d) s) =
           Num (max 0 (min 1 (max 0 (c' - b') * 2 + 0.5 * min 1 (1 - a' + c'))))"
proof -
  note cf = canonical_updateWaterFlow [OF h l f p, where d = d, folded a'_def b'_def c'_def]
  show "waterLevels (beforeAutoFlip (Num d) s) A = Num a'"
    and "waterLevels (beforeAutoFlip (Num d) s) B = Num (max 0 (min 1 b'))"
    and "waterLevels (beforeAutoFlip (Num d) s) C = Num (max 0 (min 1 c'))"
    by (simp_all add: beforeAutoFlip_levels updateWaterLevels_fields updateAirPressure_levels cf)
  have "airLineConnected (updateWaterFlow (Num d) s)"
    by (simp add: updateWaterFlow_airLineConnected h canonical_has)
  then show "airPressure (beforeAutoFlip (Num d) s) =
           Num (max 0 (min 1 (max 0 (c' - b') * 2 + 0.5 * min 1 (1 - a' + c'))))"
    by (simp add: beforeAutoFlip_pressure updateAirPressure_def Let_def cf)
qed

section \<open>The first two ticks of a new fountain\<close>

lemma canonicalFlow_tick1:
  "canonicalFlow 0.25 0 (1 / 60) 0.75 1 0.26 = (0.7501125, 0.999575, 0.2603125)"
  by (simp add: canonicalFlow_def)

lemma after_tick1:
  "waterLevels after_tick1 A = Num 0.7501125"
  "waterLevels after_tick1 B = Num 0.999575"
  "waterLevels after_tick1 C = Num 0.2603125"
  "airPressure after_tick1 = Num 0.2551"
  "hoses after_tick1 = [drainHose, airLineHose, riserHose]"
  "flowIntensity after_tick1 = Num 0.25"
  "isActive after_tick1" "isFlipping after_tick1 = False"
  "airLineConnected after_tick1" "spoutTip after_tick1"
proof -
  let ?s = "Fountain_new zero_random"
  have l: "waterLevels ?s A = Num 0.75" "waterLevels ?s B = Num 1" "waterLevels ?s C = Num 0.26"
    by (simp_all add: Fountain_new_fields initialLevels_def)
  note b = canonical_beforeAutoFlip [OF Fountain_new_fields(1) l Fountain_new_fields(4,3),
      where d = "1 / 60", unfolded canonicalFlow_tick1]
  have b': "waterLevels (beforeAutoFlip (Num (1 / 60)) ?s) A = Num 0.7501125"
    "waterLevels (beforeAutoFlip (Num (1 / 60)) ?s) B = Num 0.999575"
    "waterLevels (beforeAutoFlip (Num (1 / 60)) ?s) C = Num 0.2603125"
    "airPressure (beforeAutoFlip (Num (1 / 60)) ?s) = Num 0.2551"
    using b by simp_all
  have a: "isActive ?s" by (simp add: Fountain_new_fields)
  note u = update_no_flip [OF a, where dt = "Num (1 / 60)" and now = 0]
  have n: "\<not> Num 0.98 \<le> waterLevels (beforeAutoFlip (Num (1 / 60)) ?s) C"
    "\<not> waterLevels (beforeAutoFlip (Num (1 / 60)) ?s) B \<le> Num 0.02"
    by (simp_all add: b')
  show "waterLevels after_tick1 A = Num 0.7501125"
    "waterLevels after_tick1 B = Num 0.999575"
    "waterLevels after_tick1 C = Num 0.2603125"
    "airPressure after_tick1 = Num 0.2551"
    unfolding after_tick1_def u(1) [OF n] u(2) [OF n] by (rule b')+
  show "hoses after_tick1 = [drainHose, airLineHose, riserHose]"
    "flowIntensity after_tick1 = Num 0.25" "spoutTip after_tick1"
    by (simp_all add: after_tick1_def update_others Fountain_new_fields)
  show "isActive after_tick1" unfolding after_tick1_def by (rule u(4) [OF n])
  show "isFlipping after_tick1 = False"
    unfolding after_tick1_def u(3) [OF n] by (simp add: Fountain_new_fields)
  show "airLineConnected after_tick1"
    by (simp add: after_tick1_def update_airLineConnected [OF a] Fountain_new_fields
        canonical_has)
qed

section \<open>Conservation\<close>

lemma update_forward:
  assumes a: "isActive s" and u: "levels_in_unit s" and f: "flowIntensity s = Num f" "0 \<le> f"
    and p: "airPressure s = Num p" and d: "0 \<le> d"
  shows "levels_in_unit (snd (update now (Num d) s))"
    and "total (snd (update now (Num d) s)) = total s - riserLoss (Num d) s"
proof -
  note b = beforeAutoFlip_forward [OF u f p d]
  have pu: "in_unit (airPressure (beforeAutoFlip (Num d) s))"
    using u f(1) p
    by (intro beforeAutoFlip_any(2)) (simp_all add: levels_in_unit_def in_unit_bounds in_unit_finite)
  have eq: "waterLevels (snd (update now (Num d) s)) =
      waterLevels (checkAutoFlip now (beforeAutoFlip (Num d) s))"
    by (rule update_levels(1) [OF a])
  show "levels_in_unit (snd (update now (Num d) s))"
    using checkAutoFlip_in_unit(1) [OF b(1) pu, of now]
    by (simp add: levels_in_unit_def eq)
  have "total (snd (update now (Num d) s)) = total (checkAutoFlip now (beforeAutoFlip (Num d) s))"
    by (simp add: total_def eq)
  also have "\<dots> = total (beforeAutoFlip (Num d) s)"
    by (rule checkAutoFlip_total [OF levels_in_unit_finite [OF b(1)]])
  finally show "total (snd (update now (Num d) s)) = total s - riserLoss (Num d) s"
    by (simp add: b(2))
qed

lemma total_finite: "levels_in_unit s \<Longrightarrow> \<exists>t. total s = Num t"
  unfolding levels_in_unit_def in_unit_iff total_def by auto

text \<open>
  C1 (as amended). In a tick with a time step \<open>d \<ge> 0\<close> and a flow intensity \<open>f \<ge> 0\<close>, on
  levels in \<open>[0,1]\<close> and whatever hoses are connected (the three canonical ones included),
  the sum \<open>A + B + C\<close> after the tick is the sum before minus what the riser step took from
  \<open>B\<close>: that water is credited to no vessel. The loss is never negative, and it is zero,
  so the sum is unchanged, when the pressure at the start of the tick is at most \<open>0.05\<close>.
  A flip in the tick swaps \<open>B\<close> and \<open>C\<close> and leaves the sum alone.
\<close>

theorem tick_total:
  assumes "isActive s" and "levels_in_unit s" and "flowIntensity s = Num f" and "0 \<le> f"
    and "airPressure s = Num p" and "0 \<le> d"
  shows "total (snd (update now (Num d) s)) = total s - riserLoss (Num d) s \<and>
         (\<exists>l. riserLoss (Num d) s = Num l \<and> 0 \<le> l) \<and>
         (p \<le> 0.05 \<longrightarrow> total (snd (update now (Num d) s)) = total s) \<and>
         levels_in_unit (snd (update now (Num d) s))"
proof -
  note uf = update_forward [OF assms, of now]
  note wf = updateWaterFlow_forward [OF assms(2-6)]
  from total_finite [OF assms(2)] obtain t where t: "total s = Num t" ..
  have "total (snd (update now (Num d) s)) = total s" if "p \<le> 0.05"
    using uf(2) wf(4) [OF that] t by simp
  with uf wf(3) show ?thesis by blast
qed

lemma canonicalFlowI:
  fixes f p d a b c :: real
  assumes "m1 = min (min (0.03 * f * d) b) (1 - c)"
    and "b1 = b - m1" and "c1 = c + m1"
    and "m2 = (if 0.05 < p \<and> 0 < b1 then min (0.0625 * f * p * d) b1 else 0)"
    and "b2 = b1 - m2"
    and "m3 = max 0 (min (min (0.045 * f * d) a) (1 - c1))"
    and "a3 = a - m3"
    and "m4 = max 0 (min (min (0.045 * f * d * 1.6) b2) (1 - a3))"
  shows "canonicalFlow f p d a b c = (a3 + m4, b2 - m4, c1 + m3)"
  unfolding canonicalFlow_def Let_def assms by (rule refl)

lemma canonicalFlow_tick2:
  "canonicalFlow 0.25 0.2551 (1 / 60) 0.7501125 0.999575 0.2603125 =
     (0.750225, 0.99915 - 0.0039859375 / 60, 0.260625)"
proof -
  have "canonicalFlow 0.25 0.2551 (1 / 60) 0.7501125 0.999575 0.2603125 =
     (0.749925 + 0.0003, (0.99945 - 0.0039859375 / 60) - 0.0003, 0.2604375 + 0.0001875)"
  proof (rule canonicalFlowI [where ?m1.0 = "0.000125" and ?b1.0 = "0.99945"
        and ?m2.0 = "0.0039859375 / 60"])
    show "(0.000125 :: real) = min (min (0.03 * 0.25 * (1 / 60)) 0.999575) (1 - 0.2603125)"
      by simp
    show "(0.99945 :: real) = 0.999575 - 0.000125" by simp
    show "(0.2604375 :: real) = 0.2603125 + 0.000125" by simp
    show "(0.0039859375 / 60 :: real) =
        (if 0.05 < (0.2551 :: real) \<and> 0 < (0.99945 :: real)
         then min (0.0625 * 0.25 * 0.2551 * (1 / 60)) 0.99945 else 0)"
      by simp
    show "(0.99945 - 0.0039859375 / 60 :: real) = 0.99945 - 0.0039859375 / 60" by simp
    show "(0.0001875 :: real) = max 0 (min (min (0.045 * 0.25 * (1 / 60)) 0.7501125) (1 - 0.2604375))"
      by simp
    show "(0.749925 :: real) = 0.7501125 - 0.0001875" by simp
    show "(0.0003 :: real) = max 0 (min (min (0.045 * 0.25 * (1 / 60) * 1.6)
        (0.99945 - 0.0039859375 / 60)) (1 - 0.749925))"
      by simp
  qed
  then show ?thesis by simp
qed

lemma after_tick2:
  "waterLevels after_tick2 A = Num 0.750225"
  "waterLevels after_tick2 B = Num (0.99915 - 0.0039859375 / 60)"
  "waterLevels after_tick2 C = Num 0.260625"
  "isFlipping after_tick2 = False"
proof -
  let ?s = "after_tick1"
  note b = canonical_beforeAutoFlip [OF after_tick1(5,1,2,3,6,4),
      where d = "1 / 60", unfolded canonicalFlow_tick2]
  have b': "waterLevels (beforeAutoFlip (Num (1 / 60)) ?s) A = Num 0.750225"
    "waterLevels (beforeAutoFlip (Num (1 / 60)) ?s) B = Num (0.99915 - 0.0039859375 / 60)"
    "waterLevels (beforeAutoFlip (Num (1 / 60)) ?s) C = Num 0.260625"
    using b(1-3) by simp_all
  note u = update_no_flip [OF after_tick1(7), where dt = "Num (1 / 60)" and now = 0]
  have n: "\<not> Num 0.98 \<le> waterLevels (beforeAutoFlip (Num (1 / 60)) ?s) C"
    "\<not> waterLevels (beforeAutoFlip (Num (1 / 60)) ?s) B \<le> Num 0.02"
    by (simp_all add: b')
  show "waterLevels after_tick2 A = Num 0.750225"
    "waterLevels after_tick2 B = Num (0.99915 - 0.0039859375 / 60)"
    "waterLevels after_tick2 C = Num 0.260625"
    unfolding after_tick2_def u(1) [OF n] by (rule b')+
  show "isFlipping after_tick2 = False"
    unfolding after_tick2_def u(3) [OF n] by (rule after_tick1(8))
qed

theorem tick_total_counterexample:
  "hoses after_tick1 = [drainHose, airLineHose, riserHose] \<and>
   isFlipping after_tick1 = False \<and> isFlipping after_tick2 = False \<and>
   after_tick2 = snd (update 0 (Num (1 / 60)) after_tick1) \<and>
   total after_tick1 = Num 2.01 \<and>
   total after_tick2 = Num (2.01 - 0.0039859375 / 60) \<and>
   total after_tick2 \<noteq> total after_tick1"
  by (simp add: after_tick1 after_tick2 total_def after_tick2_def [symmetric])

theorem tick_total_witness:
  "isActive after_tick1 \<and> levels_in_unit after_tick1 \<and>
   flowIntensity after_tick1 = Num 0.25 \<and> (0 :: real) \<le> 0.25 \<and>
   airPressure after_tick1 = Num 0.2551 \<and> (0 :: real) \<le> 1 / 60 \<and>
   total (snd (update 0 (Num (1 / 60)) after_tick1))
     = total after_tick1 - riserLoss (Num (1 / 60)) after_tick1 \<and>
   (\<exists>l. riserLoss (Num (1 / 60)) after_tick1 = Num l \<and> 0 \<le> l) \<and>
   levels_in_unit (snd (update 0 (Num (1 / 60)) after_tick1))"
proof -
  have u: "levels_in_unit after_tick1"
    by (simp add: levels_in_unit_def after_tick1)
  have r: "(0 :: real) \<le> 0.25" "(0 :: real) \<le> 1 / 60" by simp_all
  from tick_total [OF after_tick1(7) u after_tick1(6) r(1) after_tick1(4) r(2), of 0]
  show ?thesis using u r after_tick1(7,6,4) by blast
qed

section \<open>The level of the bowl\<close>

lemma drain_riser_keep_A:
  "waterLevels (riserStep dt (drainStep dt s)) A = waterLevels s A"
proof -
  have "waterLevels (createFountainParticles u) = waterLevels u" for u
    by (rule pool_only_fields(2) [OF pool_only_createFountainParticles])
  then have "waterLevels (riserStep dt u) A = waterLevels u A" for u
    by (simp add: riserStep_def Let_def)
  then show ?thesis by (simp add: drainStep_def Let_def)
qed

text \<open>
  C3. A new fountain has the canonical drain connected and the bowl level \<open>A = 0.75\<close>.
  The drain and riser steps of its first tick (1/60 s) leave \<open>A\<close> alone, as the comments
  of the source say; the hose loop that follows, commented as for user-created hoses
  only, also runs on the canonical drain and riser hoses and moves \<open>A\<close>: after the tick
  \<open>A = 0.7501125\<close>.
\<close>

theorem bowl_level_moves:
  "hasDrain (hoses (Fountain_new zero_random)) \<and>
   waterLevels (Fountain_new zero_random) A = Num 0.75 \<and>
   waterLevels (riserStep (Num (1 / 60)) (drainStep (Num (1 / 60)) (Fountain_new zero_random))) A
     = Num 0.75 \<and>
   waterLevels (snd (update 0 (Num (1 / 60)) (Fountain_new zero_random))) A = Num 0.7501125"
  using after_tick1(1)
  by (simp add: after_tick1_def drain_riser_keep_A Fountain_new_fields canonical_has
      initialLevels_def)

section \<open>Clamping\<close>

lemma setFlowIntensity_fields:
  "flowIntensity (setFlowIntensity v s) = Math_max (Num 0) (Math_min (Num 1) v)"
  "waterLevels (setFlowIntensity v s) = waterLevels s"
  "airPressure (setFlowIntensity v s) = airPressure s"
  "isActive (setFlowIntensity v s) = isActive s"
  "hoses (setFlowIntensity v s) = hoses s"
  "isFlipping (setFlowIntensity v s) = isFlipping s"
  by (simp_all add: setFlowIntensity_def)

lemma update_any:
  assumes u: "levels_in_unit s" and p: "in_unit (airPressure s)"
    and f: "is_finite (flowIntensity s)"
  shows "levels_in_unit (snd (update now (Num d) s))"
    and "in_unit (airPressure (snd (update now (Num d) s)))"
proof -
  have pre: "in_unit (waterLevels s A)" "Num 0 \<le> waterLevels s B" "is_finite (waterLevels s C)"
    "is_finite (airPressure s)"
    using u p by (simp_all add: levels_in_unit_def in_unit_bounds in_unit_finite)
  note b = beforeAutoFlip_any [OF pre(1-3) f pre(4), of d]
  note c = checkAutoFlip_in_unit [OF b, of now]
  show "levels_in_unit (snd (update now (Num d) s))"
  proof (cases "isActive s")
    case True
    then show ?thesis using c(1) by (simp add: levels_in_unit_def update_levels)
  next
    case False
    then show ?thesis using u by (simp add: update_def)
  qed
  show "in_unit (airPressure (snd (update now (Num d) s)))"
  proof (cases "isActive s")
    case True
    then show ?thesis using c(2) by (simp add: update_levels)
  next
    case False
    then show ?thesis using p by (simp add: update_def)
  qed
qed

lemma update_completion:
  "fst (update now dt s) = Normal \<or> \<not> updateHoses_ok s"
proof -
  have "hoses (checkAutoFlip now (beforeAutoFlip dt s)) = hoses s"
    by (simp add: checkAutoFlip_others tick_only_fields(1) [OF tick_only_beforeAutoFlip])
  then show ?thesis by (simp add: update_def Let_def updateHoses_ok_def)
qed

text \<open>
  C2 (as amended). For every finite time step \<open>d\<close> and every finite flow-intensity input
  \<open>v\<close>, negative values and values above 1 included, a tick on levels and a pressure in
  \<open>[0,1]\<close> leaves the three levels and the pressure in \<open>[0,1]\<close>; the flow intensity is
  stored clamped into \<open>[0,1]\<close>, and no number makes the tick throw (it throws only for a hose
  without anchors).
\<close>

theorem clamped_tick:
  assumes "levels_in_unit s" and "in_unit (airPressure s)"
  shows "levels_in_unit (snd (update now (Num d) (setFlowIntensity (Num v) s))) \<and>
         in_unit (airPressure (snd (update now (Num d) (setFlowIntensity (Num v) s)))) \<and>
         flowIntensity (setFlowIntensity (Num v) s) = Num (max 0 (min 1 v)) \<and>
         (updateHoses_ok s \<longrightarrow>
            fst (update now (Num d) (setFlowIntensity (Num v) s)) = Normal)"
proof -
  let ?s = "setFlowIntensity (Num v) s"
  have u: "levels_in_unit ?s" and p: "in_unit (airPressure ?s)"
    and f: "is_finite (flowIntensity ?s)"
    using assms by (simp_all add: levels_in_unit_def setFlowIntensity_fields)
  have ok: "updateHoses_ok ?s = updateHoses_ok s"
    by (simp add: updateHoses_ok_def setFlowIntensity_fields)
  show ?thesis
    using update_any [OF u p f, of now d] update_completion [of now "Num d" ?s] ok
    by (auto simp: setFlowIntensity_fields)
qed

theorem clamped_tick_witness:
  "levels_in_unit (Fountain_new zero_random) \<and>
   in_unit (airPressure (Fountain_new zero_random)) \<and>
   levels_in_unit (snd (update 0 (Num (- 1)) (setFlowIntensity (Num 1.5) (Fountain_new zero_random)))) \<and>
   in_unit (airPressure
      (snd (update 0 (Num (- 1)) (setFlowIntensity (Num 1.5) (Fountain_new zero_random))))) \<and>
   flowIntensity (setFlowIntensity (Num 1.5) (Fountain_new zero_random)) = Num 1 \<and>
   updateHoses_ok (Fountain_new zero_random) \<and>
   fst (update 0 (Num (- 1)) (setFlowIntensity (Num 1.5) (Fountain_new zero_random))) = Normal"
proof -
  have u: "levels_in_unit (Fountain_new zero_random)"
    and p: "in_unit (airPressure (Fountain_new zero_random))"
    by (simp_all add: levels_in_unit_def Fountain_new_fields initialLevels_def)
  have ok: "updateHoses_ok (Fountain_new zero_random)"
    by (simp add: updateHoses_ok_def Fountain_new_fields rebuildTubeForHose_ok_def drainHose_def
        airLineHose_def riserHose_def)
  from clamped_tick [OF u p, of 0 "- 1" "1.5"] u p ok show ?thesis by simp
qed

lemma hoseFlow_NaN: "hoseFlow NaN h s = s"
  by (simp add: hoseFlow_def Let_def Math_min3_def)

lemma fold_hoseFlow_NaN: "fold (hoseFlow NaN) hs s = s"
  by (induction hs) (simp_all add: hoseFlow_NaN)

lemma nan_tick:
  "flowIntensity (setFlowIntensity NaN (Fountain_new zero_random)) = NaN"
  "waterLevels nan_tick B = NaN" "waterLevels nan_tick C = NaN" "airPressure nan_tick = NaN"
proof -
  let ?s = "setFlowIntensity NaN (Fountain_new zero_random)"
  let ?d = "Num (1 / 60)"
  show f: "flowIntensity ?s = NaN" by (simp add: setFlowIntensity_fields)
  have h: "hoses ?s = [drainHose, airLineHose, riserHose]" and p: "airPressure ?s = Num 0"
    and a: "isActive ?s"
    by (simp_all add: setFlowIntensity_fields Fountain_new_fields)
  have d: "waterLevels (drainStep ?d ?s) B = NaN" "waterLevels (drainStep ?d ?s) C = NaN"
    by (simp_all add: drainStep_def Let_def h canonical_has f Math_min3_def flowRate_def)
  have r: "riserStep ?d (drainStep ?d ?s) = drainStep ?d ?s"
    by (simp add: riserStep_def drainStep_others p)
  have w: "waterLevels (updateWaterFlow ?d ?s) = waterLevels (drainStep ?d ?s)"
    by (simp add: updateWaterFlow_def Let_def r drainStep_others f flowRate_def
        fold_hoseFlow_NaN)
  have b: "waterLevels (beforeAutoFlip ?d ?s) B = NaN" "waterLevels (beforeAutoFlip ?d ?s) C = NaN"
    by (simp_all add: beforeAutoFlip_levels updateWaterLevels_fields updateAirPressure_levels w d)
  have q: "airPressure (beforeAutoFlip ?d ?s) = NaN"
    by (simp add: beforeAutoFlip_pressure updateAirPressure_def Let_def w d)
  have n: "\<not> Num 0.98 \<le> waterLevels (beforeAutoFlip ?d ?s) C"
    "\<not> waterLevels (beforeAutoFlip ?d ?s) B \<le> Num 0.02"
    by (simp_all add: b)
  note u = update_no_flip [OF a n, of 0]
  show "waterLevels nan_tick B = NaN" "waterLevels nan_tick C = NaN" "airPressure nan_tick = NaN"
    unfolding nan_tick_def u by (rule b q)+
qed

lemma canonicalFlow_backward:
  "canonicalFlow 0.25 0 (- 1) 0.75 1 0.26 = (0.75, 1.0075, 0.2525)"
  by (simp add: canonicalFlow_def)

lemma backward_tick:
  "waterLevels backward_tick A = Num 0.75" "waterLevels backward_tick B = Num 1"
  "waterLevels backward_tick C = Num 0.2525"
proof -
  let ?s = "Fountain_new zero_random"
  have l: "waterLevels ?s A = Num 0.75" "waterLevels ?s B = Num 1" "waterLevels ?s C = Num 0.26"
    by (simp_all add: Fountain_new_fields initialLevels_def)
  note b = canonical_beforeAutoFlip [OF Fountain_new_fields(1) l Fountain_new_fields(4,3),
      where d = "- 1", unfolded canonicalFlow_backward]
  have b': "waterLevels (beforeAutoFlip (Num (- 1)) ?s) A = Num 0.75"
    "waterLevels (beforeAutoFlip (Num (- 1)) ?s) B = Num 1"
    "waterLevels (beforeAutoFlip (Num (- 1)) ?s) C = Num 0.2525"
    using b(1-3) by simp_all
  have a: "isActive ?s" by (simp add: Fountain_new_fields)
  have n: "\<not> Num 0.98 \<le> waterLevels (beforeAutoFlip (Num (- 1)) ?s) C"
    "\<not> waterLevels (beforeAutoFlip (Num (- 1)) ?s) B \<le> Num 0.02"
    by (simp_all add: b')
  note u = update_no_flip [OF a n, of 0]
  show "waterLevels backward_tick A = Num 0.75" "waterLevels backward_tick B = Num 1"
    "waterLevels backward_tick C = Num 0.2525"
    unfolding backward_tick_def u by (rule b')+
qed

theorem clamped_tick_counterexample:
  "flowIntensity (setFlowIntensity NaN (Fountain_new zero_random)) = NaN \<and>
   nan_tick = snd (update 0 (Num (1 / 60)) (setFlowIntensity NaN (Fountain_new zero_random))) \<and>
   waterLevels nan_tick B = NaN \<and> waterLevels nan_tick C = NaN \<and>
   airPressure nan_tick = NaN \<and>
   in_unit (waterLevels nan_tick B) = False \<and>
   backward_tick = snd (update 0 (Num (- 1)) (Fountain_new zero_random)) \<and>
   waterLevels (Fountain_new zero_random) B = Num 1 \<and>
   waterLevels (Fountain_new zero_random) C = Num 0.26 \<and>
   waterLevels backward_tick B = Num 1 \<and>
   waterLevels backward_tick C = Num 0.2525"
  by (simp add: nan_tick backward_tick Fountain_new_fields initialLevels_def
      nan_tick_def [symmetric] backward_tick_def [symmetric])

section \<open>The automatic flip\<close>








section \<open>The automatic flip and the levels at the call\<close>






section \<open>The flip\<close>

lemma flipSystem_noop: "isFlipping s \<Longrightarrow> flipSystem now s = s"
  by (simp add: flipSystem_def)

lemma flipSystem_effect:
  assumes "\<not> isFlipping s" "sideGroup s"
  shows "waterLevels (flipSystem now s) A = waterLevels s A"
    "waterLevels (flipSystem now s) B = waterLevels s C"
    "waterLevels (flipSystem now s) C = waterLevels s B"
    "airPressure (flipSystem now s) = Num 0"
    "isActive (flipSystem now s)" "isFlipping (flipSystem now s)"
    "flipCallbacks (flipSystem now s) = flipCallbacks s @ [now]"
  using assms by (simp_all add: flipSystem_def Let_def animateFlip_def)

lemma animationFrame_single:
  assumes "flipCallbacks s = [start]"
  shows "animationFrame t s =
     (if t - start < flip_duration then s else s\<lparr>isFlipping := False, flipCallbacks := []\<rparr>)"
proof -
  have "s\<lparr>flipCallbacks := [start]\<rparr> = s" using assms by simp
  then show ?thesis
    by (simp add: animationFrame_def assms flipStep_def Let_def flip_duration_def)
qed

lemma flipStep_levels:
  "waterLevels (flipStep t start s) = waterLevels s"
  "airPressure (flipStep t start s) = airPressure s"
  by (simp_all add: flipStep_def Let_def)

lemma animationFrame_levels:
  "waterLevels (animationFrame t s) = waterLevels s"
  "airPressure (animationFrame t s) = airPressure s"
proof -
  have "waterLevels (fold (flipStep t) cbs u) = waterLevels u \<and>
        airPressure (fold (flipStep t) cbs u) = airPressure u" for cbs u
    by (induction cbs arbitrary: u) (simp_all add: flipStep_levels)
  then show "waterLevels (animationFrame t s) = waterLevels s"
    "airPressure (animationFrame t s) = airPressure s"
    by (simp_all add: animationFrame_def)
qed

text \<open>
  C5 (as amended). \<open>flipSystem\<close> does nothing while a flip is in progress. Otherwise it
  swaps \<open>B\<close> and \<open>C\<close>, resets the pressure to 0, sets \<open>isActive\<close> and \<open>isFlipping\<close> and
  schedules the transition, all at once. The transition lasts 1000 ms: an animation frame
  earlier than that changes nothing, and the first frame at or after it only clears
  \<open>isFlipping\<close>; no animation frame changes a level or the pressure.
\<close>

theorem flip_behaviour:
  "(isFlipping s \<longrightarrow> flipSystem now s = s) \<and>
   (\<not> isFlipping s \<and> sideGroup s \<longrightarrow>
      waterLevels (flipSystem now s) A = waterLevels s A \<and>
      waterLevels (flipSystem now s) B = waterLevels s C \<and>
      waterLevels (flipSystem now s) C = waterLevels s B \<and>
      airPressure (flipSystem now s) = Num 0 \<and>
      isActive (flipSystem now s) \<and> isFlipping (flipSystem now s) \<and>
      flipCallbacks (flipSystem now s) = flipCallbacks s @ [now]) \<and>
   (flipCallbacks s = [start] \<longrightarrow>
      animationFrame t s =
        (if t - start < 1000 then s else s\<lparr>isFlipping := False, flipCallbacks := []\<rparr>)) \<and>
   waterLevels (animationFrame t s) = waterLevels s \<and>
   airPressure (animationFrame t s) = airPressure s"
  using flipSystem_noop [of s now] flipSystem_effect [of s now]
    animationFrame_single [of s start t] animationFrame_levels [of t s]
  by (simp add: flip_duration_def)

lemma flip_started:
  "waterLevels flip_started A = Num 0.75" "waterLevels flip_started B = Num 0.26"
  "waterLevels flip_started C = Num 1" "airPressure flip_started = Num 0"
  "isActive flip_started" "isFlipping flip_started" "flipCallbacks flip_started = [0]"
  "hoses flip_started = [drainHose, airLineHose, riserHose]"
  "flowIntensity flip_started = Num 0.25"
  using flipSystem_effect [of "Fountain_new zero_random" 0]
  by (simp_all add: flip_started_def Fountain_new_fields initialLevels_def flipSystem_others)

lemma canonicalFlow_flipped:
  "canonicalFlow 0.25 0 (1 / 60) 0.75 0.26 1 = (0.7503, 0.2597, 1)"
  by (simp add: canonicalFlow_def)

lemma flip_running:
  "waterLevels flip_running A = Num 0.7503" "waterLevels flip_running B = Num 0.2597"
  "waterLevels flip_running C = Num 1" "airPressure flip_running = Num 1"
  "isFlipping flip_running" "flipCallbacks flip_running = [0]"
proof -
  let ?b = "beforeAutoFlip (Num (1 / 60)) flip_started"
  note t = tick_only_fields [OF tick_only_beforeAutoFlip [of flip_started "Num (1 / 60)"]]
  have fl: "isFlipping ?b" using t(4) flip_started(6) by simp
  then have c: "checkAutoFlip 16 ?b = ?b" by (simp add: checkAutoFlip_def)
  note b = canonical_beforeAutoFlip [OF flip_started(8,1,2,3,9,4), where d = "1 / 60",
      unfolded canonicalFlow_flipped]
  show "waterLevels flip_running A = Num 0.7503" "waterLevels flip_running B = Num 0.2597"
    "waterLevels flip_running C = Num 1" "airPressure flip_running = Num 1"
    unfolding flip_running_def update_levels [OF flip_started(5)] c using b by simp_all
  have "snd (update 16 (Num (1 / 60)) flip_started) = ?b \<or>
      snd (update 16 (Num (1 / 60)) flip_started) = advanceTime (Num (1 / 60)) ?b"
    using flip_started(5) by (simp add: update_def Let_def c)
  then show "isFlipping flip_running" "flipCallbacks flip_running = [0]"
    unfolding flip_running_def using fl t(6) flip_started(7)
    by (auto simp: advanceTime_others)
qed

theorem flip_behaviour_counterexample:
  "isFlipping (Fountain_new zero_random) = False \<and>
   waterLevels (Fountain_new zero_random) B = Num 1 \<and>
   waterLevels (Fountain_new zero_random) C = Num 0.26 \<and>
   flip_started = flipSystem 0 (Fountain_new zero_random) \<and>
   isFlipping flip_started \<and>
   waterLevels flip_started B = Num 0.26 \<and> waterLevels flip_started C = Num 1 \<and>
   airPressure flip_started = Num 0 \<and>
   flip_running = snd (update 16 (Num (1 / 60)) flip_started) \<and>
   isFlipping flip_running \<and>
   waterLevels flip_running B = Num 0.2597 \<and> waterLevels flip_running C = Num 1 \<and>
   airPressure flip_running = Num 1 \<and>
   flip_completed = animationFrame 1000 flip_running \<and>
   isFlipping flip_completed = False \<and>
   waterLevels flip_completed B = Num 0.2597 \<and> waterLevels flip_completed C = Num 1 \<and>
   airPressure flip_completed = Num 1"
proof -
  have e: "flip_completed = flip_running\<lparr>isFlipping := False, flipCallbacks := []\<rparr>"
    unfolding flip_completed_def animationFrame_single [OF flip_running(6)]
    by (simp add: flip_duration_def)
  have c: "isFlipping flip_completed = False" "waterLevels flip_completed B = Num 0.2597"
    "waterLevels flip_completed C = Num 1" "airPressure flip_completed = Num 1"
    unfolding e using flip_running by simp_all
  have d: "flip_started = flipSystem 0 (Fountain_new zero_random)"
    "flip_running = snd (update 16 (Num (1 / 60)) flip_started)"
    "flip_completed = animationFrame 1000 flip_running"
    by (rule flip_started_def flip_running_def flip_completed_def)+
  have n: "isFlipping (Fountain_new zero_random) = False"
    "waterLevels (Fountain_new zero_random) B = Num 1"
    "waterLevels (Fountain_new zero_random) C = Num 0.26"
    by (simp_all add: Fountain_new_fields initialLevels_def)
  from n d(1) flip_started(6,2,3,4) d(2) flip_running(5,2,3,4) d(3) c
  show ?thesis by blast
qed

theorem flip_behaviour_witness:
  "isFlipping flip_started \<and> flipSystem 5 flip_started = flip_started \<and>
   isFlipping (Fountain_new zero_random) = False \<and> sideGroup (Fountain_new zero_random) \<and>
   waterLevels (flipSystem 0 (Fountain_new zero_random)) B
     = waterLevels (Fountain_new zero_random) C \<and>
   waterLevels (flipSystem 0 (Fountain_new zero_random)) C
     = waterLevels (Fountain_new zero_random) B \<and>
   airPressure (flipSystem 0 (Fountain_new zero_random)) = Num 0 \<and>
   isFlipping (flipSystem 0 (Fountain_new zero_random)) \<and>
   flipCallbacks flip_started = [0] \<and>
   animationFrame 999 flip_started = flip_started \<and>
   animationFrame 1000 flip_started = flip_started\<lparr>isFlipping := False, flipCallbacks := []\<rparr>"
proof -
  have n: "\<not> isFlipping (Fountain_new zero_random) \<and> sideGroup (Fountain_new zero_random)"
    by (simp add: Fountain_new_fields)
  from flip_behaviour [of flip_started 5 0 999] flip_behaviour [of flip_started 5 0 1000]
    flip_behaviour [of "Fountain_new zero_random" 0 0 0] n flip_started(6,7)
  show ?thesis by simp
qed

section \<open>The particle pool\<close>

lemma findIndex_None: "findIndex P xs = None \<longleftrightarrow> (\<forall>x \<in> set xs. \<not> P x)"
  by (induction xs) simp_all

lemma findIndex_Some:
  "findIndex P xs = Some i \<Longrightarrow> i < length xs \<and> P (xs ! i)"
  by (induction xs arbitrary: i) (auto split: if_splits)

lemma filter_update_length:
  "i < length xs \<Longrightarrow> \<not> P (xs ! i) \<Longrightarrow> P y \<Longrightarrow>
     length (filter P (xs[i := y])) = Suc (length (filter P xs))"
proof (induction xs arbitrary: i)
  case Nil
  then show ?case by simp
next
  case (Cons x xs)
  then show ?case by (cases i) simp_all
qed

lemma countVisible_le: "countVisible ps \<le> length ps"
  by (simp add: countVisible_def)

lemma countVisible_full: "countVisible ps = length ps \<longleftrightarrow> (\<forall>p \<in> set ps. visible p)"
proof
  assume eq: "countVisible ps = length ps"
  show "\<forall>p \<in> set ps. visible p"
  proof (rule ccontr)
    assume "\<not> (\<forall>p \<in> set ps. visible p)"
    then obtain p where "p \<in> set ps" "\<not> visible p" by blast
    then have "length (filter visible ps) < length ps" by (rule length_filter_less)
    with eq show False by (simp add: countVisible_def)
  qed
next
  assume "\<forall>p \<in> set ps. visible p"
  then have "filter visible ps = ps" by simp
  then show "countVisible ps = length ps" by (simp add: countVisible_def)
qed

text \<open>One pass of a spawn loop claims the first free slot, if there is one.\<close>

lemma emitParticle_particles:
  "findIndex (\<lambda>p. \<not> visible p) (particles s) = None \<Longrightarrow>
     particles (emitParticle fh s) = particles s"
  "findIndex (\<lambda>p. \<not> visible p) (particles s) = Some i \<Longrightarrow>
     \<exists>pos vel ml. particles (emitParticle fh s) =
       (particles s)[i := \<lparr>visible = True, position = pos, velocity = vel, life = Num 0,
                             maxLife = ml\<rparr>]"
   apply (simp add: emitParticle_def)
  apply (simp add: emitParticle_def Math_random_def Let_def split_def)
  apply (intro exI)
  apply (rule refl)
  done

lemma splashParticle_particles:
  "findIndex (\<lambda>p. \<not> visible p) (particles s) = None \<Longrightarrow>
     particles (splashParticle pos0 s) = particles s"
  "findIndex (\<lambda>p. \<not> visible p) (particles s) = Some i \<Longrightarrow>
     \<exists>pos vel ml. particles (splashParticle pos0 s) =
       (particles s)[i := \<lparr>visible = True, position = pos, velocity = vel, life = Num 0,
                             maxLife = ml\<rparr>]"
   apply (simp add: splashParticle_def)
  apply (simp add: splashParticle_def Math_random_def Let_def split_def)
  apply (intro exI)
  apply (rule refl)
  done

lemma claim_slot_count:
  assumes none: "findIndex (\<lambda>p. \<not> visible p) ps = None \<Longrightarrow> ps' = ps"
    and some: "\<And>i. findIndex (\<lambda>p. \<not> visible p) ps = Some i \<Longrightarrow>
       \<exists>pos vel ml. ps' = ps[i := \<lparr>visible = True, position = pos, velocity = vel,
                                   life = Num 0, maxLife = ml\<rparr>]"
  shows "countVisible ps' = min (length ps) (Suc (countVisible ps))"
proof (cases "findIndex (\<lambda>p. \<not> visible p) ps")
  case None
  then have "\<forall>p \<in> set ps. visible p" by (simp add: findIndex_None)
  then have "countVisible ps = length ps" by (simp add: countVisible_full)
  with none [OF None] show ?thesis by simp
next
  case (Some i)
  from findIndex_Some [OF Some] have i: "i < length ps" "\<not> visible (ps ! i)" by simp_all
  from some [OF Some] obtain q where q: "visible q" "ps' = ps[i := q]"
    by (metis particle.select_convs(1))
  have "countVisible ps' = Suc (countVisible ps)"
    unfolding countVisible_def q(2) by (rule filter_update_length [OF i q(1)])
  moreover have "countVisible ps < length ps"
    unfolding countVisible_def using nth_mem [OF i(1)] i(2) by (rule length_filter_less)
  ultimately show ?thesis by simp
qed

lemma emitParticle_count:
  "countVisible (particles (emitParticle fh s)) =
     min (length (particles s)) (Suc (countVisible (particles s)))"
  by (rule claim_slot_count) (simp_all add: emitParticle_particles)

lemma splashParticle_count:
  "countVisible (particles (splashParticle pos s)) =
     min (length (particles s)) (Suc (countVisible (particles s)))"
  by (rule claim_slot_count) (simp_all add: splashParticle_particles)

lemma funpow_emitParticle_count:
  "countVisible (particles ((emitParticle fh ^^ n) s)) =
     min (length (particles s)) (countVisible (particles s) + n)"
proof (induction n)
  case 0
  show ?case using countVisible_le [of "particles s"] by simp
next
  case (Suc n)
  have len: "length (particles ((emitParticle fh ^^ n) s)) = length (particles s)"
    by (rule pool_only_fields(18) [OF pool_only_funpow]) (rule pool_only_emitParticle)
  show ?case by (simp add: emitParticle_count len Suc)
qed

lemma createFountainParticles_count:
  assumes "spoutTip s" "airLineConnected s" "\<not> airPressure s \<le> Num 0.05"
  shows "countVisible (particles (createFountainParticles s)) =
     min (length (particles s))
       (countVisible (particles s) +
        loop_iterations (Math_max (Num 25)
          (Math_floor ((Num 0.5 + flowIntensity s) * airPressure s * Num 120))))"
  using assms by (simp add: createFountainParticles_def Let_def funpow_emitParticle_count)

text \<open>With every slot taken, a spawn request changes no particle.\<close>

lemma funpow_full:
  fixes f :: "fountain \<Rightarrow> fountain"
  assumes "\<And>u. \<forall>p \<in> set (particles u). visible p \<Longrightarrow> particles (f u) = particles u"
    and "\<forall>p \<in> set (particles s). visible p"
  shows "particles ((f ^^ n) s) = particles s"
proof (induction n)
  case 0
  show ?case by simp
next
  case (Suc n)
  have "\<forall>p \<in> set (particles ((f ^^ n) s)). visible p" using Suc assms(2) by simp
  from assms(1) [OF this] Suc show ?case by simp
qed

lemma createFountainParticles_full:
  assumes "\<forall>p \<in> set (particles s). visible p"
  shows "particles (createFountainParticles s) = particles s"
proof -
  have "particles ((emitParticle fh ^^ n) s) = particles s" for fh n
    using _ assms
    by (rule funpow_full) (simp add: emitParticle_particles(1) findIndex_None)
  then show ?thesis by (simp add: createFountainParticles_def Let_def)
qed

lemma spawnSplash_full:
  assumes "\<forall>p \<in> set (particles s). visible p"
  shows "particles (spawnSplash pos s) = particles s"
proof -
  have "particles ((splashParticle pos ^^ n) u) = particles u"
    if "\<forall>p \<in> set (particles u). visible p" for n u
    using _ that
    by (rule funpow_full) (simp add: splashParticle_particles(1) findIndex_None)
  then show ?thesis
    using assms by (simp add: spawnSplash_def Math_random_def Let_def)
qed

lemma fold_identity:
  assumes "\<And>x. x \<in> set xs \<Longrightarrow> f x s = s"
  shows "fold f xs s = s"
  using assms by (induction xs) simp_all

lemma updateParticles_idle:
  assumes "\<forall>p \<in> set (particles s). \<not> visible p"
  shows "updateParticles dt s = s"
  unfolding updateParticles_def
proof (rule fold_identity)
  fix i assume "i \<in> set [0..<length (particles s)]"
  then have "particles s ! i \<in> set (particles s)" by simp
  with assms have "\<not> visible (particles s ! i)" by blast
  then show "updateParticle dt i s = s" by (simp add: updateParticle_def)
qed

lemma hoseFlow_particles: "particles (fold (hoseFlow r) hs s) = particles s"
  by (induction hs arbitrary: s) (simp_all add: hoseFlow_def Let_def)

lemma updateWaterFlow_particles:
  "particles (updateWaterFlow dt s) = particles (riserStep dt (drainStep dt s))"
  by (simp add: updateWaterFlow_def Let_def hoseFlow_particles)

lemma riserStep_idle: "\<not> Num 0.05 < airPressure s \<Longrightarrow> riserStep dt s = s"
  by (simp add: riserStep_def)

lemma update_particles_idle:
  assumes "\<not> Num 0.05 < airPressure s" and "\<forall>p \<in> set (particles s). \<not> visible p"
  shows "particles (snd (update now dt s)) = particles s"
proof -
  have w: "particles (updateWaterFlow dt s) = particles s"
    using assms(1) by (simp add: updateWaterFlow_particles riserStep_idle drainStep_others)
  have a: "particles (updateAirPressure (updateWaterFlow dt s)) = particles s"
    by (simp add: updateAirPressure_def Let_def w)
  then have "updateParticles dt (updateAirPressure (updateWaterFlow dt s)) =
      updateAirPressure (updateWaterFlow dt s)"
    using assms(2) by (intro updateParticles_idle) simp
  then have "particles (beforeAutoFlip dt s) = particles s"
    by (simp add: beforeAutoFlip_def updateWaterLevels_def Let_def a)
  then show ?thesis
    using update_state [of now dt s]
    by (auto simp: advanceTime_others checkAutoFlip_others)
qed

lemma after_tick1_particles:
  "length (particles after_tick1) = maxParticles"
  "\<forall>p \<in> set (particles after_tick1). \<not> visible p"
  "countVisible (particles after_tick1) = 0"
proof -
  have i: "\<forall>p \<in> set (particles (Fountain_new zero_random)). \<not> visible p"
    using Fountain_new_particles(2) [of zero_random] by (simp add: list_all_iff)
  have "particles after_tick1 = particles (Fountain_new zero_random)"
    unfolding after_tick1_def
    by (rule update_particles_idle) (simp_all add: Fountain_new_fields i)
  then show "length (particles after_tick1) = maxParticles"
    "\<forall>p \<in> set (particles after_tick1). \<not> visible p"
    "countVisible (particles after_tick1) = 0"
    using i by (simp_all add: Fountain_new_particles countVisible_def)
qed

section \<open>Gating of the jet\<close>

lemma airline_removed:
  "hoses airline_removed = [riserHose]"
  "waterLevels airline_removed B = Num 0.999575" "airPressure airline_removed = Num 0.2551"
  "flowIntensity airline_removed = Num 0.25" "airLineConnected airline_removed"
  "spoutTip airline_removed" "particles airline_removed = particles after_tick1"
  by (simp_all add: airline_removed_def removeHosesForContainer_def after_tick1 drainHose_def
      airLineHose_def riserHose_def)

lemma jet_gate:
  assumes "\<not> hasRiser (hoses s) \<or> \<not> airLineConnected s \<or> \<not> Num 0.05 < airPressure s"
  shows "particles (updateWaterFlow dt s) = particles s"
proof -
  have "particles (createFountainParticles u) = particles u" if "\<not> airLineConnected u" for u
    using that by (simp add: createFountainParticles_def)
  then have "particles (riserStep dt u) = particles u"
    if "\<not> hasRiser (hoses u) \<or> \<not> airLineConnected u \<or> \<not> Num 0.05 < airPressure u" for u
    using that by (auto simp: riserStep_def Let_def)
  then show ?thesis
    using assms by (simp add: updateWaterFlow_particles drainStep_others)
qed

section \<open>The bound of the particle pool\<close>

lemma flipStep_particles: "particles (flipStep now start s) = particles s"
  by (simp add: flipStep_def Let_def)

lemma animationFrame_particles: "particles (animationFrame now s) = particles s"
proof -
  have "particles (fold (flipStep now) cbs u) = particles u" for cbs u
    by (induction cbs arbitrary: u) (simp_all add: flipStep_particles)
  then show ?thesis by (simp add: animationFrame_def)
qed

lemma apply_op_length: "length (particles (apply_op x s)) = length (particles s)"
proof (cases x)
  case (Update now dt)
  then show ?thesis by (simp add: update_others)
next
  case (FlipSystem now)
  then show ?thesis by (simp add: flipSystem_others)
next
  case (AnimationFrame now)
  then show ?thesis by (simp add: animationFrame_particles)
next
  case (HandleContainerClick k)
  then show ?thesis
    by (simp add: handleContainerClick_def addHose_def split: option.splits)
qed (simp_all add: setFlowIntensity_def resetSystem_def removeHosesForContainer_def addHose_def
      addHoseCurved_def addFreeformHoseWithPoints_def addDiagramHoses_def
      addDefaultDiagramHoses_def)

lemma run_length: "length (particles (run ops s)) = length (particles s)"
  unfolding run_def by (induction ops arbitrary: s) (simp_all add: apply_op_length)

text \<open>
  C9. In every state reached from the constructor by any sequence of operations the pool
  holds \<open>maxParticles = 400\<close> particles, so at most 400 are alive; a jet or a splash
  request also keeps the pool at its size, claims free slots only, and changes no particle
  when every slot is taken. Neither function has an error to raise.
\<close>

theorem particle_pool_bound:
  "length (particles (run ops (Fountain_new rnd))) = 400 \<and>
   countVisible (particles (run ops (Fountain_new rnd))) \<le> 400 \<and>
   length (particles (createFountainParticles s)) = length (particles s) \<and>
   length (particles (spawnSplash pos s)) = length (particles s) \<and>
   countVisible (particles (createFountainParticles s)) \<le> length (particles s) \<and>
   countVisible (particles (spawnSplash pos s)) \<le> length (particles s) \<and>
   ((\<forall>p \<in> set (particles s). visible p) \<longrightarrow>
      particles (createFountainParticles s) = particles s \<and>
      particles (spawnSplash pos s) = particles s)"
proof -
  have n: "length (particles (run ops (Fountain_new rnd))) = 400"
    by (simp add: run_length Fountain_new_particles maxParticles_def)
  have c: "length (particles (createFountainParticles s)) = length (particles s)"
    by (rule pool_only_fields(18) [OF pool_only_createFountainParticles])
  have p: "length (particles (spawnSplash pos s)) = length (particles s)"
    by (rule pool_only_fields(18) [OF pool_only_spawnSplash])
  show ?thesis
    using n c p countVisible_le [of "particles (run ops (Fountain_new rnd))"]
      countVisible_le [of "particles (createFountainParticles s)"]
      countVisible_le [of "particles (spawnSplash pos s)"]
      createFountainParticles_full [of s] spawnSplash_full [of s pos]
    by simp
qed

lemma pool_exhausted:
  "\<forall>p \<in> set (particles pool_exhausted). visible p"
  "countVisible (particles pool_exhausted) = 400"
  "spoutTip pool_exhausted" "airLineConnected pool_exhausted"
  "airPressure pool_exhausted = Num 0.2551"
proof -
  show a: "\<forall>p \<in> set (particles pool_exhausted). visible p"
    by (simp add: pool_exhausted_def)
  have "length (particles pool_exhausted) = 400"
    by (simp add: pool_exhausted_def after_tick1_particles maxParticles_def)
  with a show "countVisible (particles pool_exhausted) = 400"
    using countVisible_full [of "particles pool_exhausted"] by simp
  show "spoutTip pool_exhausted" "airLineConnected pool_exhausted"
    "airPressure pool_exhausted = Num 0.2551"
    by (simp_all add: pool_exhausted_def after_tick1)
qed

theorem particle_pool_bound_witness:
  "list_all visible (particles pool_exhausted) \<and>
   countVisible (particles pool_exhausted) = 400 \<and>
   spoutTip pool_exhausted \<and> airLineConnected pool_exhausted \<and>
   Num 0.05 < airPressure pool_exhausted \<and>
   particles (createFountainParticles pool_exhausted) = particles pool_exhausted \<and>
   particles (spawnSplash (Vector3 (Num 0) (Num 4) (Num 0)) pool_exhausted)
     = particles pool_exhausted \<and>
   length (particles (run [Update 0 (Num (1 / 60)), Update 0 (Num (1 / 60))]
      (Fountain_new zero_random))) = 400"
  using particle_pool_bound [of "[Update 0 (Num (1 / 60)), Update 0 (Num (1 / 60))]"
      zero_random pool_exhausted "Vector3 (Num 0) (Num 4) (Num 0)"]
    pool_exhausted
  by (simp add: list_all_iff)

section \<open>The pressure of a tick\<close>

lemma beforeAutoFlip_pressure_spec:
  assumes "in_unit (waterLevels s A)" "Num 0 \<le> waterLevels s B" "is_finite (waterLevels s C)"
    and "is_finite (flowIntensity s)" "is_finite (airPressure s)"
  shows "airPressure (beforeAutoFlip (Num d) s) =
     spec_pressure (hasAirLine (hoses s)) (waterLevels (updateWaterFlow (Num d) s))"
proof -
  let ?s1 = "updateWaterFlow (Num d) s"
  note wf = updateWaterFlow_any [OF assms, of d]
  from wf obtain a b c where
    l: "waterLevels ?s1 A = Num a" "waterLevels ?s1 B = Num b" "waterLevels ?s1 C = Num c"
    and r: "a \<le> 1" "0 \<le> b"
    unfolding finite_levels_def is_finite_iff in_unit_iff by auto
  show ?thesis
    unfolding beforeAutoFlip_pressure updateAirPressure_eq_spec [OF l r]
    by (simp add: updateWaterFlow_airLineConnected)
qed

lemma updateAirPressure_numeric:
  assumes "waterLevels s A = Num a" "waterLevels s B = Num b" "waterLevels s C = Num c"
  shows "airPressure (updateAirPressure s) =
     Num (max 0 (min 1 ((if airLineConnected s then 1 else 0.2) *
        (max 0 (c - b) * 2.0 + 0.5 * min 1 ((1 - a) + c)))))"
  using assms by (simp add: updateAirPressure_def Let_def)

lemma updateAirPressure_NaN:
  assumes "waterLevels s A = NaN \<or> waterLevels s B = NaN \<or> waterLevels s C = NaN"
  shows "airPressure (updateAirPressure s) = NaN"
  using assms
  by (cases "waterLevels s A"; cases "waterLevels s B"; cases "waterLevels s C")
    (simp_all add: updateAirPressure_def Let_def)

lemma overfull_bowl:
  "airLineConnected overfull_bowl"
  "waterLevels overfull_bowl A = Num 3" "waterLevels overfull_bowl B = Num 0"
  "waterLevels overfull_bowl C = Num 0.5"
  by (simp_all add: overfull_bowl_def after_tick1(9))

text \<open>
  C7 (as amended). From numeric levels \<open>updateAirPressure\<close> computes
  \<open>clamp01 (sealFactor * (max 0 (C - B) * 2 + 0.5 * inflowFactor))\<close> with \<open>sealFactor\<close> 1 when
  the air line is marked connected and 0.2 otherwise, and with
  \<open>inflowFactor = min 1 ((1 - A) + C)\<close>, which is capped at 1 and has no lower bound; this
  pressure lies in \<open>[0,1]\<close>. On levels with \<open>A \<le> 1\<close> and \<open>0 \<le> B\<close> it is equal to the formula
  in which \<open>inflowFactor\<close> is clamped to \<open>[0,1]\<close>, and those bounds hold whenever a tick
  recomputes the pressure: for a tick with any finite time step, from a state with \<open>A\<close> in
  \<open>[0,1]\<close>, \<open>B \<ge> 0\<close> and finite \<open>C\<close>, flow intensity and pressure, the new pressure is that
  formula on the levels that \<open>updateWaterFlow\<close> has just produced and on whether the air
  line is among the hoses. When a level is \<open>NaN\<close> the pressure is \<open>NaN\<close>.
\<close>

theorem pressure_formula:
  "(waterLevels s A = Num a \<and> waterLevels s B = Num b \<and> waterLevels s C = Num c \<and>
    a \<le> 1 \<and> 0 \<le> b \<longrightarrow>
      airPressure (updateAirPressure s) = spec_pressure (airLineConnected s) (waterLevels s) \<and>
      in_unit (airPressure (updateAirPressure s))) \<and>
   (in_unit (waterLevels s A) \<and> Num 0 \<le> waterLevels s B \<and> is_finite (waterLevels s C) \<and>
    is_finite (flowIntensity s) \<and> is_finite (airPressure s) \<longrightarrow>
      airPressure (beforeAutoFlip (Num d) s) =
        spec_pressure (hasAirLine (hoses s)) (waterLevels (updateWaterFlow (Num d) s)) \<and>
      in_unit (airPressure (beforeAutoFlip (Num d) s))) \<and>
   (waterLevels s A = Num a \<and> waterLevels s B = Num b \<and> waterLevels s C = Num c \<longrightarrow>
      airPressure (updateAirPressure s) =
        Num (max 0 (min 1 ((if airLineConnected s then 1 else 0.2) *
          (max 0 (c - b) * 2.0 + 0.5 * min 1 ((1 - a) + c))))) \<and>
      in_unit (airPressure (updateAirPressure s))) \<and>
   (waterLevels s A = NaN \<or> waterLevels s B = NaN \<or> waterLevels s C = NaN \<longrightarrow>
      airPressure (updateAirPressure s) = NaN)"
  using updateAirPressure_eq_spec [of s a b c] updateAirPressure_in_unit [of s a b c]
    beforeAutoFlip_pressure_spec [of s d] beforeAutoFlip_any(2) [of s d]
    updateAirPressure_numeric [of s a b c] updateAirPressure_NaN [of s]
  by blast

theorem pressure_formula_witness:
  "waterLevels after_tick1 A = Num 0.7501125 \<and> waterLevels after_tick1 B = Num 0.999575 \<and>
   waterLevels after_tick1 C = Num 0.2603125 \<and>
   (0.7501125 :: real) \<le> 1 \<and> (0 :: real) \<le> 0.999575 \<and>
   airPressure (updateAirPressure after_tick1)
     = spec_pressure (airLineConnected after_tick1) (waterLevels after_tick1) \<and>
   spec_pressure (airLineConnected after_tick1) (waterLevels after_tick1) = Num 0.2551 \<and>
   in_unit (airPressure (updateAirPressure after_tick1)) \<and>
   in_unit (waterLevels after_tick1 A) \<and> Num 0 \<le> waterLevels after_tick1 B \<and>
   is_finite (waterLevels after_tick1 C) \<and> is_finite (flowIntensity after_tick1) \<and>
   is_finite (airPressure after_tick1) \<and>
   airPressure (beforeAutoFlip (Num (1 / 60)) after_tick1) =
     spec_pressure (hasAirLine (hoses after_tick1))
       (waterLevels (updateWaterFlow (Num (1 / 60)) after_tick1)) \<and>
   in_unit (airPressure (beforeAutoFlip (Num (1 / 60)) after_tick1)) \<and>
   waterLevels overfull_bowl A = Num 3 \<and> waterLevels overfull_bowl B = Num 0 \<and>
   waterLevels overfull_bowl C = Num 0.5 \<and>
   airPressure (updateAirPressure overfull_bowl) = Num 0.25 \<and>
   in_unit (airPressure (updateAirPressure overfull_bowl)) \<and>
   waterLevels nan_tick B = NaN \<and> airPressure (updateAirPressure nan_tick) = NaN"
proof -
  have r: "(0.7501125 :: real) \<le> 1" "(0 :: real) \<le> 0.999575" by simp_all
  have v: "spec_pressure (airLineConnected after_tick1) (waterLevels after_tick1) = Num 0.2551"
    by (simp add: after_tick1 spec_pressure_def clamp01_def)
  have u: "in_unit (waterLevels after_tick1 A)" "Num 0 \<le> waterLevels after_tick1 B"
    "is_finite (waterLevels after_tick1 C)" "is_finite (flowIntensity after_tick1)"
    "is_finite (airPressure after_tick1)"
    by (simp_all add: after_tick1)
  from pressure_formula [of after_tick1 "0.7501125" "0.999575" "0.2603125" "1 / 60"]
    after_tick1(1-3) r v u
  have 1: "airPressure (updateAirPressure after_tick1)
       = spec_pressure (airLineConnected after_tick1) (waterLevels after_tick1) \<and>
     in_unit (airPressure (updateAirPressure after_tick1)) \<and>
     airPressure (beforeAutoFlip (Num (1 / 60)) after_tick1) =
       spec_pressure (hasAirLine (hoses after_tick1))
         (waterLevels (updateWaterFlow (Num (1 / 60)) after_tick1)) \<and>
     in_unit (airPressure (beforeAutoFlip (Num (1 / 60)) after_tick1))"
    by blast
  from pressure_formula [of overfull_bowl 3 0 "0.5" 0] overfull_bowl
  have "airPressure (updateAirPressure overfull_bowl) =
        Num (max 0 (min 1 ((if airLineConnected overfull_bowl then 1 else 0.2) *
          (max 0 (0.5 - 0) * 2.0 + 0.5 * min 1 ((1 - 3) + 0.5))))) \<and>
      in_unit (airPressure (updateAirPressure overfull_bowl))"
    by blast
  then have 2: "airPressure (updateAirPressure overfull_bowl) = Num 0.25"
    "in_unit (airPressure (updateAirPressure overfull_bowl))"
    by (simp_all add: overfull_bowl(1))
  from pressure_formula [of nan_tick 0 0 0 0] nan_tick(2)
  have 3: "airPressure (updateAirPressure nan_tick) = NaN" by blast
  from 1 2 3 after_tick1(1-3) r v u overfull_bowl(2-4) nan_tick(2) show ?thesis by blast
qed

theorem pressure_formula_counterexample:
  "nan_tick = snd (update 0 (Num (1 / 60)) (setFlowIntensity NaN (Fountain_new zero_random))) \<and>
   airPressure nan_tick = NaN \<and> in_unit (airPressure nan_tick) = False \<and>
   airLineConnected overfull_bowl \<and>
   waterLevels overfull_bowl A = Num 3 \<and> waterLevels overfull_bowl B = Num 0 \<and>
   waterLevels overfull_bowl C = Num 0.5 \<and>
   airPressure (updateAirPressure overfull_bowl) = Num 0.25 \<and>
   spec_pressure (airLineConnected overfull_bowl) (waterLevels overfull_bowl) = Num 1"
proof -
  have 1: "airPressure (updateAirPressure overfull_bowl) = Num 0.25"
    by (simp add: updateAirPressure_numeric [OF overfull_bowl(2-4)] overfull_bowl(1))
  have 2: "spec_pressure (airLineConnected overfull_bowl) (waterLevels overfull_bowl) = Num 1"
    by (simp add: spec_pressure_def clamp01_def overfull_bowl)
  have 3: "in_unit (airPressure nan_tick) = False" by (simp add: nan_tick(4))
  from 1 2 3 nan_tick(4) overfull_bowl nan_tick_def show ?thesis by blast
qed

section \<open>Jet particles through the rest of the tick\<close>

lemma emitParticle_zero:
  assumes "random_src s = zero_random"
    and "findIndex (\<lambda>p. \<not> visible p) (particles s) = Some i"
  shows "particles (emitParticle fh s) = (particles s)[i := jet0 fh (absorbY s)]"
  using assms
  by (simp add: emitParticle_def Math_random_def Let_def split_def jet0_def zero_random_def)

lemma funpow_emitParticle_zero:
  assumes z: "random_src s = zero_random"
    and v: "\<forall>p \<in> set (particles s). visible p \<longrightarrow> p = jet0 fh (absorbY s)"
  shows "\<forall>p \<in> set (particles ((emitParticle fh ^^ n) s)).
           visible p \<longrightarrow> p = jet0 fh (absorbY s)"
proof (induction n)
  case 0
  show ?case using v by simp
next
  case (Suc n)
  let ?t = "(emitParticle fh ^^ n) s"
  have po: "pool_only s ?t" by (rule pool_only_funpow) (rule pool_only_emitParticle)
  have zt: "random_src ?t = zero_random" and yt: "absorbY ?t = absorbY s"
    using pool_only_fields(13,11) [OF po] z by simp_all
  show ?case
  proof (cases "findIndex (\<lambda>p. \<not> visible p) (particles ?t)")
    case None
    then show ?thesis using Suc by (simp add: emitParticle_particles(1))
  next
    case (Some i)
    have "set ((particles ?t)[i := jet0 fh (absorbY s)]) \<subseteq>
        insert (jet0 fh (absorbY s)) (set (particles ?t))"
      by (rule set_update_subset_insert)
    then show ?thesis
      using Suc by (auto simp: emitParticle_zero [OF zt Some] yt)
  qed
qed

lemma filter_update_same_length:
  "i < length xs \<Longrightarrow> P y = P (xs ! i) \<Longrightarrow>
     length (filter P (xs[i := y])) = length (filter P xs)"
proof (induction xs arbitrary: i)
  case Nil
  then show ?case by simp
next
  case (Cons x xs)
  then show ?case by (cases i) simp_all
qed

lemma updateParticle_tests:
  "updateParticle dt i s =
     (let particle = particles s ! i in
      if \<not> visible particle then s
      else
        let p = vec_add (position particle) (vec_multiplyScalar (velocity particle) dt);
            v = velocity particle;
            vel = Vector3 (vec_x v) (vec_y v - Num 9.8 * dt) (vec_z v);
            s1 = s\<lparr>particles := (particles s)
                    [i := particle\<lparr>position := p, velocity := vel, life := life particle + dt\<rparr>]\<rparr>
        in
          if hitsBottom p then
            s1\<lparr>particles := (particles s1)
                 [i := (particles s1 ! i)\<lparr>visible := False,
                                          velocity := Vector3 (Num 0) (Num 0) (Num 0)\<rparr>]\<rparr>
          else if culledOutside (absorbY s) p then setVisible i False s1
          else
            let s2 = (if hitsSurface (absorbY s) p
                      then setVisible i False (pushRipple p (spawnSplash p s1))
                      else s1)
            in if maxLife particle \<le> life particle + dt then setVisible i False s2 else s2)"
  unfolding updateParticle_def hitsBottom_def culledOutside_def hitsSurface_def Let_def
  by simp

lemma updateParticle_stays:
  assumes "visible (particles s ! i)" and "stays dt (absorbY s) (particles s ! i)"
  shows "\<exists>q. visible q \<and> updateParticle dt i s = s\<lparr>particles := (particles s)[i := q]\<rparr>"
proof -
  let ?p = "particles s ! i"
  let ?q = "?p\<lparr>position := vec_add (position ?p) (vec_multiplyScalar (velocity ?p) dt),
               velocity := Vector3 (vec_x (velocity ?p)) (vec_y (velocity ?p) - Num 9.8 * dt)
                             (vec_z (velocity ?p)),
               life := life ?p + dt\<rparr>"
  from assms(2) have n:
    "\<not> hitsBottom (vec_add (position ?p) (vec_multiplyScalar (velocity ?p) dt))"
    "\<not> culledOutside (absorbY s) (vec_add (position ?p) (vec_multiplyScalar (velocity ?p) dt))"
    "\<not> hitsSurface (absorbY s) (vec_add (position ?p) (vec_multiplyScalar (velocity ?p) dt))"
    "\<not> maxLife ?p \<le> life ?p + dt"
    unfolding stays_def Let_def by blast+
  have "updateParticle dt i s = s\<lparr>particles := (particles s)[i := ?q]\<rparr>"
    unfolding updateParticle_tests Let_def using assms(1) n by simp
  moreover have "visible ?q" using assms(1) by simp
  ultimately show ?thesis by blast
qed

lemma fold_updateParticle_stays:
  assumes "distinct js" and "\<forall>j \<in> set js. j < length (particles s)"
    and "\<forall>j \<in> set js. visible (particles s ! j) \<longrightarrow> stays dt (absorbY s) (particles s ! j)"
  shows "countVisible (particles (fold (updateParticle dt) js s)) = countVisible (particles s)"
  using assms
proof (induction js arbitrary: s)
  case Nil
  show ?case by simp
next
  case (Cons i js)
  let ?t = "updateParticle dt i s"
  have i: "i < length (particles s)" using Cons.prems(2) by simp
  have "\<exists>q. visible q = visible (particles s ! i) \<and>
      ?t = s\<lparr>particles := (particles s)[i := q]\<rparr>"
  proof (cases "visible (particles s ! i)")
    case True
    with Cons.prems(3) have "stays dt (absorbY s) (particles s ! i)" by simp
    from updateParticle_stays [OF True this] True show ?thesis by auto
  next
    case False
    then have "?t = s" by (simp add: updateParticle_def)
    then have "?t = s\<lparr>particles := (particles s)[i := particles s ! i]\<rparr>" by simp
    then show ?thesis by blast
  qed
  then obtain q where q: "visible q = visible (particles s ! i)"
    and t: "?t = s\<lparr>particles := (particles s)[i := q]\<rparr>" by blast
  have pt: "particles ?t = (particles s)[i := q]" and yt: "absorbY ?t = absorbY s"
    by (subst t, simp)+
  have c: "countVisible (particles ?t) = countVisible (particles s)"
    unfolding pt countVisible_def by (rule filter_update_same_length [OF i q])
  have "countVisible (particles (fold (updateParticle dt) js ?t)) = countVisible (particles ?t)"
  proof (rule Cons.IH)
    show "distinct js" using Cons.prems(1) by simp
    show "\<forall>j \<in> set js. j < length (particles ?t)"
      using Cons.prems(2) by (simp add: pt)
    show "\<forall>j \<in> set js. visible (particles ?t ! j) \<longrightarrow>
        stays dt (absorbY ?t) (particles ?t ! j)"
    proof
      fix j assume j: "j \<in> set js"
      with Cons.prems(1) have "j \<noteq> i" by auto
      then have "particles ?t ! j = particles s ! j" by (simp add: pt)
      with Cons.prems(3) j show "visible (particles ?t ! j) \<longrightarrow>
        stays dt (absorbY ?t) (particles ?t ! j)"
        by (simp add: yt)
    qed
  qed
  with c show ?case by simp
qed

lemma updateParticles_stays:
  assumes "\<forall>p \<in> set (particles s). visible p \<longrightarrow> stays dt (absorbY s) p"
  shows "countVisible (particles (updateParticles dt s)) = countVisible (particles s)"
  unfolding updateParticles_def
  by (rule fold_updateParticle_stays) (use assms in auto)


lemma update_particles:
  "isActive s \<Longrightarrow> particles (snd (update now dt s)) = particles (beforeAutoFlip dt s)"
  by (simp add: update_def Let_def advanceTime_others checkAutoFlip_others)

lemma update_absorbY:
  assumes "isActive s"
  shows "absorbY (snd (update now dt s)) =
     bowl_bottomY + bowl_height *
       Math_max (Num 0) (Math_min (Num 1) (waterLevels (updateWaterFlow dt s) A))"
    and "random_src (snd (update now dt s)) = random_src s"
proof -
  have c: "absorbY (checkAutoFlip now u) = absorbY u"
    "random_src (checkAutoFlip now u) = random_src u" for u
    by (simp_all add: checkAutoFlip_def Let_def flipSystem_def animateFlip_def)
  have a: "absorbY (advanceTime dt u) = absorbY u"
    "random_src (advanceTime dt u) = random_src u" for u
    by (simp_all add: advanceTime_def Let_def)
  have b: "absorbY (beforeAutoFlip dt s) = bowl_bottomY + bowl_height *
       Math_max (Num 0) (Math_min (Num 1) (waterLevels (updateWaterFlow dt s) A))"
    by (simp add: beforeAutoFlip_def updateWaterLevels_def Let_def updateParticles_levels
        updateAirPressure_levels)
  show "absorbY (snd (update now dt s)) =
     bowl_bottomY + bowl_height *
       Math_max (Num 0) (Math_min (Num 1) (waterLevels (updateWaterFlow dt s) A))"
    using assms by (simp add: update_def Let_def a c b)
  show "random_src (snd (update now dt s)) = random_src s"
    using assms tick_only_fields(9) [OF tick_only_beforeAutoFlip [of s dt]]
    by (simp add: update_def Let_def a c)
qed

lemma after_tick1_absorbY:
  "absorbY after_tick1 = Num 4.4001575" "random_src after_tick1 = zero_random"
proof -
  let ?s = "Fountain_new zero_random"
  have a: "isActive ?s" by (simp add: Fountain_new_fields)
  have l: "waterLevels ?s A = Num 0.75" "waterLevels ?s B = Num 1" "waterLevels ?s C = Num 0.26"
    by (simp_all add: Fountain_new_fields initialLevels_def)
  note w = canonical_updateWaterFlow(1) [OF Fountain_new_fields(1) l Fountain_new_fields(4,3),
      where d = "1 / 60", unfolded canonicalFlow_tick1]
  show "absorbY after_tick1 = Num 4.4001575"
    unfolding after_tick1_def update_absorbY(1) [OF a] w
    by (simp add: bowl_bottomY_def bowl_height_def)
  have "random_src ?s = zero_random" by (subst Fountain_new_eq) simp
  then show "random_src after_tick1 = zero_random"
    unfolding after_tick1_def update_absorbY(2) [OF a] .
qed

lemma jet0_stays:
  "stays (Num (1 / 60)) (Num 4.4001575) (jet0 (Num (1.6 + 0.2551 * 4.2)) (Num 4.4001575))"
  by (simp add: stays_def jet0_def hitsBottom_def culledOutside_def hitsSurface_def
      spoutTip_worldPosition_def bowl_bottomY_def bowl_innerTopR_def)

section \<open>The jet in a tick without air line\<close>

lemma updateWaterFlow_absorbY:
  "absorbY (updateWaterFlow dt s) = absorbY s"
  "random_src (updateWaterFlow dt s) = random_src s"
proof -
  have c: "absorbY (createFountainParticles u) = absorbY u"
    "random_src (createFountainParticles u) = random_src u" for u
    using pool_only_fields(11,13) [OF pool_only_createFountainParticles [of u]] by simp_all
  have r: "absorbY (riserStep dt u) = absorbY u" "random_src (riserStep dt u) = random_src u"
    for u
    by (simp_all add: riserStep_def Let_def c)
  have d: "absorbY (drainStep dt u) = absorbY u" "random_src (drainStep dt u) = random_src u"
    for u
    by (simp_all add: drainStep_def Let_def)
  have f: "absorbY (fold (hoseFlow q) hs u) = absorbY u \<and>
      random_src (fold (hoseFlow q) hs u) = random_src u" for q hs u
    by (induction hs arbitrary: u) (simp_all add: hoseFlow_def Let_def)
  show "absorbY (updateWaterFlow dt s) = absorbY s"
    "random_src (updateWaterFlow dt s) = random_src s"
    by (simp_all add: updateWaterFlow_def Let_def f r d)
qed

text \<open>
  C4. After the first tick of a new fountain, a right click on container \<open>C\<close> removes the
  drain and the air line and keeps the riser. In the next tick (1/60 s) the air line is
  not connected, and yet \<open>updateWaterFlow\<close> emits 25 jet particles into the empty pool,
  which are still alive when \<open>update\<close> returns: \<open>createFountainParticles\<close> tests the flag
  \<open>airLineConnected\<close>, which this tick refreshes only after the riser step has called it,
  so the test sees the flag of the tick before.
\<close>

theorem jet_with_stale_air_line:
  "airline_removed = removeHosesForContainer C after_tick1 \<and>
   hasRiser (hoses airline_removed) \<and> hasAirLine (hoses airline_removed) = False \<and>
   airLineConnected airline_removed \<and>
   countVisible (particles airline_removed) = 0 \<and>
   countVisible (particles (updateWaterFlow (Num (1 / 60)) airline_removed)) = 25 \<and>
   airLineConnected (updateWaterFlow (Num (1 / 60)) airline_removed) = False \<and>
   countVisible (particles (snd (update 0 (Num (1 / 60)) airline_removed))) = 25"
proof -
  let ?d = "Num (1 / 60)"
  let ?fh = "Num (1.6 + 0.2551 * 4.2)"
  have h: "hasRiser (hoses airline_removed)" "hasAirLine (hoses airline_removed) = False"
    "hasDrain (hoses airline_removed) = False"
    by (simp_all add: airline_removed hasRiser_def hasAirLine_def hasDrain_def riserHose_def)
  have d: "drainStep ?d airline_removed = airline_removed"
    by (simp add: drainStep_def h)
  define s1 where "s1 = airline_removed
    \<lparr>waterLevels := (waterLevels airline_removed)
        (B := Num (0.999575 - 0.0039859375 / 60))\<rparr>"
  have h': "hasRiser [riserHose]" by (simp add: hasRiser_def riserHose_def)
  have r: "riserStep ?d airline_removed = createFountainParticles s1"
    by (simp add: riserStep_def Let_def h' airline_removed flowRate_def s1_def)
  have f: "\<lfloor>(22959 :: real) / 1000\<rfloor> = 22" by simp
  have n: "loop_iterations (Math_max (Num 25)
      (Math_floor ((Num 0.5 + flowIntensity s1) * airPressure s1 * Num 120))) = 25"
    by (simp add: s1_def airline_removed f)
  have g: "spoutTip s1" "airLineConnected s1" "\<not> airPressure s1 \<le> Num 0.05"
    by (simp_all add: s1_def airline_removed)
  have fh: "Num 1.6 + airPressure s1 * Num 4.2 = ?fh"
    by (simp add: s1_def airline_removed)
  have cfp: "createFountainParticles s1 = (emitParticle ?fh ^^ 25) s1"
    unfolding createFountainParticles_def Let_def fh n using g by simp
  have "countVisible (particles (createFountainParticles s1)) =
      min (length (particles s1)) (countVisible (particles s1) + 25)"
    unfolding n [symmetric] by (rule createFountainParticles_count [OF g])
  then have c: "countVisible (particles (createFountainParticles s1)) = 25"
    by (simp add: s1_def airline_removed after_tick1_particles maxParticles_def)
  have w: "particles (updateWaterFlow ?d airline_removed) = particles (createFountainParticles s1)"
    by (simp add: updateWaterFlow_particles d r)
  have 1: "countVisible (particles (updateWaterFlow ?d airline_removed)) = 25"
    by (simp add: w c)
  have 2: "countVisible (particles airline_removed) = 0"
    by (simp add: airline_removed after_tick1_particles)
  have 3: "airLineConnected (updateWaterFlow ?d airline_removed) = False"
    by (simp add: updateWaterFlow_airLineConnected h)
  have y: "absorbY s1 = Num 4.4001575" and z: "random_src s1 = zero_random"
    by (simp_all add: s1_def airline_removed_def removeHosesForContainer_def after_tick1_absorbY)
  have i: "\<forall>p \<in> set (particles s1). visible p \<longrightarrow> p = jet0 ?fh (absorbY s1)"
    by (simp add: s1_def airline_removed after_tick1_particles)
  note e = funpow_emitParticle_zero [OF z i, of 25, folded cfp]
  define t where "t = updateAirPressure (updateWaterFlow ?d airline_removed)"
  have ya: "absorbY airline_removed = Num 4.4001575"
    by (simp add: airline_removed_def removeHosesForContainer_def after_tick1_absorbY)
  have pt: "particles t = particles (createFountainParticles s1)"
    by (simp add: t_def updateAirPressure_def Let_def w)
  have yt: "absorbY t = Num 4.4001575"
    by (simp add: t_def updateAirPressure_def Let_def updateWaterFlow_absorbY ya)
  have "\<forall>p \<in> set (particles t). visible p \<longrightarrow> stays ?d (absorbY t) p"
    unfolding pt yt using e jet0_stays by (auto simp: y)
  then have "countVisible (particles (updateParticles ?d t)) = 25"
    by (simp add: updateParticles_stays pt c)
  then have "countVisible (particles (beforeAutoFlip ?d airline_removed)) = 25"
    by (simp add: beforeAutoFlip_def updateWaterLevels_def Let_def t_def)
  moreover have "isActive airline_removed"
    by (simp add: airline_removed_def removeHosesForContainer_def after_tick1)
  ultimately have 4: "countVisible (particles (snd (update 0 ?d airline_removed))) = 25"
    by (simp add: update_particles)
  from h(1,2) airline_removed(5) airline_removed_def 1 2 3 4 show ?thesis by blast
qed

end
